theory Spec2Isabelle
  imports Main "HOL-Library.Word"
begin

unbundle bit_operations_syntax

section \<open>Errors and results\<close>

text \<open>
  A Go \<open>error\<close> value is either made by \<open>errors.New\<close> (or handed up by the storage
  layer) or is another error wrapped with a message by \<open>errors.Wrap\<close>. \<open>errors.Wrap\<close> of
  \<open>nil\<close> is \<open>nil\<close>, so a wrap only ever appears around a real error. A function that
  returns \<open>(value, error)\<close> is modelled by \<open>'a result\<close>; a run-time panic is a third
  outcome, kept apart from the returned errors.
\<close>

datatype error = New string | Wrap error string

datatype 'a result = Panic | Err error | Ok 'a

section \<open>Data of the packages \<open>bc\<close>, \<open>utxodb\<close> and \<open>appdb\<close>\<close>

text \<open>
  \<open>bc.Hash\<close> and \<open>bc.AssetID\<close> are byte arrays; the code only passes them to their
  \<open>String\<close> methods and to \<open>bc.ParseHash\<close>. \<open>time.Time\<close> is an instant on the integer
  time line. Amounts are 64 bits wide; the conversions between \<open>int64\<close> and
  \<open>uint64\<close> keep the bits. The transaction, its inputs and outputs and the UTXOs handed
  to \<open>SaveReservations\<close> are not \<open>nil\<close>; only a receiver may be.
\<close>

type_synonym bytes = "8 word list"
type_synonym time = int

record Outpoint =
  Hash :: bytes
  Index :: "32 word"

record TxInput =
  Previous :: Outpoint

record TxOutput =
  txo_AssetID :: bytes
  txo_Value :: "64 word"
  txo_Script :: bytes

record Tx =
  Inputs :: "TxInput list"
  Outputs :: "TxOutput list"

text \<open>\<open>utxodb.Receiver\<close>; a \<open>nil\<close> receiver is \<open>None\<close>. \<open>AddrIndex\<close> is a slice.\<close>

record Receiver =
  rec_ManagerNodeID :: string
  rec_AccountID :: string
  rec_AddrIndex :: "32 word list"
  rec_IsChange :: bool

text \<open>\<open>utxodb.UTXO\<close>; \<open>AddrIndex\<close> is the array \<open>[2]uint32\<close>.\<close>

record UTXO =
  AccountID :: string
  AssetID :: string
  Amount :: "64 word"
  Outpoint :: Outpoint
  ResvExpires :: time
  AddrIndex :: "32 word \<times> 32 word"

text \<open>\<open>appdb.UTXO\<close> embeds a \<open>utxodb.UTXO\<close> and adds the receiver information.\<close>

record appUTXO =
  UTXO :: UTXO
  Addr :: string
  ManagerNodeID :: string
  IsChange :: bool

text \<open>The zero value that \<open>new(utxodb.UTXO)\<close> and a composite literal start from.\<close>

definition zero_UTXO :: UTXO where
  "zero_UTXO =
     \<lparr>AccountID = [], AssetID = [], Amount = 0,
      Outpoint = \<lparr>Hash = replicate 32 0, Index = 0\<rparr>,
      ResvExpires = 0, AddrIndex = (0, 0)\<rparr>"

text \<open>
  The builtin \<open>copy(u.AddrIndex[:], src)\<close>: it copies \<open>min 2 (len src)\<close> elements
  and leaves the rest of the array as it was.
\<close>

definition copy_AddrIndex :: "32 word \<times> 32 word \<Rightarrow> 32 word list \<Rightarrow> 32 word \<times> 32 word" where
  "copy_AddrIndex dst src =
     (case src of
        [] \<Rightarrow> dst
      | [x] \<Rightarrow> (x, snd dst)
      | x # y # _ \<Rightarrow> (x, y))"

section \<open>The storage layer\<close>

text \<open>
  The table \<open>utxos\<close>. The column \<open>reserved_until\<close> is not named by the insert
  statement, so a new row takes the column's default, the unset value \<open>None\<close>.
\<close>

record utxo_row =
  txid :: string
  index :: "32 word"
  asset_id :: string
  amount :: "64 word"
  account_id :: string
  manager_node_id :: string
  addr_index :: "64 word"
  reserved_until :: "time option"

text \<open>
  The table \<open>addresses\<close>, read only. \<open>a_key_index\<close> is the array that the query's
  \<open>key_index(key_index)\<close> returns for the row.
\<close>

record address_row =
  address :: string
  a_account_id :: string
  a_manager_node_id :: string
  a_key_index :: "32 word list"
  a_is_change :: bool

text \<open>The arrays that \<open>insertUTXOs\<close> collects for the insert statement.\<close>

record utxoSet =
  us_txid :: string
  us_index :: "32 word list"
  us_assetID :: "string list"
  us_amount :: "64 word list"
  us_addr :: "string list"
  us_accountID :: "string list"
  us_managerNodeID :: "string list"
  us_aIndex :: "64 word list"

text \<open>The four statements of the file, and the calls that leave the function, in order.\<close>

datatype stmt = SelectAddresses | InsertUTXOs | DeleteUTXOs | UpdateReservedUntil

datatype call =
    Query_addresses "string list"
  | Exec_insert string utxoSet
  | Call_WriteActivity Tx "appUTXO list" time
  | Query_delete "string list" "32 word list"
  | Exec_update "string list" "32 word list" time

text \<open>
  The state the functions act on: the two tables and the history of the calls made to the
  storage layer and to the activity recorder, oldest first. A call is recorded when it is
  made, whether or not it succeeds.
\<close>

record world =
  utxos :: "utxo_row list"
  addresses :: "address_row list"
  calls :: "call list"

text \<open>
  The database handle found in the context: \<open>pg.FromContext(ctx)\<close> is a \<open>pg.Tx\<close>
  inside a database transaction and some other \<open>pg.DB\<close> outside.
\<close>

datatype handle = PlainDB | InTx

text \<open>
  The errors of the storage layer are not decided by the code: \<open>exec_err\<close> is the error
  of \<open>Exec\<close> or \<open>Query\<close> for a statement (a violated constraint, a value outside the
  range of its column, a lost connection; a statement that fails changes nothing),
  \<open>scan_err\<close> the error of \<open>rows.Scan\<close> on the n-th row, \<open>rows_err\<close> the value of
  \<open>rows.Err()\<close> after the iteration. Every property below holds for all of them.
\<close>

record faults =
  exec_err :: "stmt \<Rightarrow> error option"
  scan_err :: "stmt \<Rightarrow> nat \<Rightarrow> error option"
  rows_err :: "stmt \<Rightarrow> error option"

text \<open>
  The functions of other packages that the file calls: \<open>bc.Hash.String\<close>,
  \<open>bc.ParseHash\<close>, \<open>bc.AssetID.String\<close>, \<open>txscript.PkScriptAddr\<close> followed by the
  address's \<open>String\<close>, \<open>bc.Tx.Hash\<close> and \<open>appdb.WriteActivity\<close>, which reads the
  state and returns an error or \<open>nil\<close>.
\<close>

record env =
  Hash_String :: "bytes \<Rightarrow> string"
  ParseHash :: "string \<Rightarrow> error + bytes"
  AssetID_String :: "bytes \<Rightarrow> string"
  PkScriptAddr :: "bytes \<Rightarrow> error + string"
  Tx_Hash :: "Tx \<Rightarrow> bytes"
  WriteActivity :: "world \<Rightarrow> Tx \<Rightarrow> appUTXO list \<Rightarrow> time \<Rightarrow> error option"

section \<open>The key index\<close>

text \<open>
  \<open>int64(i[0])<<31 | int64(i[1]&0x7fffffff)\<close>. Indexing a slice shorter than two
  elements panics.
\<close>

definition toKeyIndex :: "32 word list \<Rightarrow> 64 word result" where
  "toKeyIndex i =
     (if length i < 2 then Panic
      else Ok (push_bit 31 (ucast (i ! 0) :: 64 word) OR
               (ucast (i ! 1 AND 0x7fffffff) :: 64 word)))"

text \<open>
  Modelled from the spec: the unpacking function, the stored function \<open>key_index\<close> of the
  database, is not among the sources. The spec says that the first index occupies bits 31
  and above and the second the low 31 bits, and that unpacking inverts the packing.
\<close>

definition key_index :: "64 word \<Rightarrow> 32 word list" where
  "key_index n = [ucast (drop_bit 31 n), ucast (n AND 0x7fffffff)]"

section \<open>Reservations\<close>

text \<open>
  The row test \<open>(txid, index) IN (SELECT unnest($1), unnest($2))\<close>. The two arrays
  are filled by one loop, one element each per turn, so they have the same length and
  the two \<open>unnest\<close> run in step: the outpoints are the arrays zipped.
\<close>

definition in_outpoints :: "string list \<Rightarrow> 32 word list \<Rightarrow> utxo_row \<Rightarrow> bool" where
  "in_outpoints txids indexes r \<longleftrightarrow> (txid r, index r) \<in> set (zip txids indexes)"

definition SaveReservations :: "env \<Rightarrow> faults \<Rightarrow> UTXO list \<Rightarrow> time \<Rightarrow> world \<Rightarrow> error option \<times> world" where
  "SaveReservations env flt utxos_arg exp w =
     (let txids = map (\<lambda>u. Hash_String env (Hash (Outpoint u))) utxos_arg;
          indexes = map (\<lambda>u. Index (Outpoint u)) utxos_arg;
          w1 = w\<lparr>calls := calls w @ [Exec_update txids indexes exp]\<rparr>
      in case exec_err flt UpdateReservedUntil of
           Some err \<Rightarrow> (Some (Wrap err ''update utxo reserve expiration''), w1)
         | None \<Rightarrow>
             (None,
              w1\<lparr>utxos :=
                   map (\<lambda>r. if in_outpoints txids indexes r
                             then r\<lparr>reserved_until := Some exp\<rparr> else r)
                       (utxos w1)\<rparr>))"

section \<open>Deleting the consumed outputs\<close>

text \<open>
  The loop over the rows that the delete statement returns. The last line of the
  function returns \<open>rows.Err()\<close> as it is.
\<close>

fun scan_deleted :: "env \<Rightarrow> faults \<Rightarrow> nat \<Rightarrow> utxo_row list \<Rightarrow> UTXO list \<Rightarrow> UTXO list result" where
  "scan_deleted env flt n [] deleted =
     (case rows_err flt DeleteUTXOs of
        Some err \<Rightarrow> Err err
      | None \<Rightarrow> Ok deleted)"
| "scan_deleted env flt n (r # rows) deleted =
     (case scan_err flt DeleteUTXOs n of
        Some err \<Rightarrow> Err (Wrap err ''scan'')
      | None \<Rightarrow>
          (case ParseHash env (txid r) of
             Inl err \<Rightarrow> Err (Wrap err ''decode hash'')
           | Inr h \<Rightarrow>
               scan_deleted env flt (Suc n) rows
                 (deleted @
                  [zero_UTXO\<lparr>AccountID := account_id r, AssetID := asset_id r,
                     Outpoint := \<lparr>Hash = h, Index = index r\<rparr>\<rparr>])))"

text \<open>
  \<open>DELETE FROM utxos WHERE (txid, index) IN (TABLE outpoints) RETURNING ...\<close>: the
  rows of the table that are among the outpoints leave the table and are returned, in
  the order of the table.
\<close>

definition deleteUTXOs :: "env \<Rightarrow> faults \<Rightarrow> TxInput list \<Rightarrow> world \<Rightarrow> UTXO list result \<times> world" where
  "deleteUTXOs env flt txins w =
     (let txids = map (\<lambda>i. Hash_String env (Hash (Previous i))) txins;
          indexes = map (\<lambda>i. Index (Previous i)) txins;
          w1 = w\<lparr>calls := calls w @ [Query_delete txids indexes]\<rparr>
      in case exec_err flt DeleteUTXOs of
           Some err \<Rightarrow> (Err (Wrap err ''delete''), w1)
         | None \<Rightarrow>
             (scan_deleted env flt 0 (filter (in_outpoints txids indexes) (utxos w1)) [],
              w1\<lparr>utxos := filter (\<lambda>r. \<not> in_outpoints txids indexes r) (utxos w1)\<rparr>))"

section \<open>Resolving the receivers and inserting the new outputs\<close>

text \<open>
  The body of the loop of \<open>initAddrInfoFromRecs\<close>, after the address is known. The
  slice \<open>insert\<close> of the source is \<open>ins\<close> here.
\<close>

definition new_appUTXO :: "env \<Rightarrow> bytes \<Rightarrow> nat \<Rightarrow> TxOutput \<Rightarrow> string \<Rightarrow> appUTXO" where
  "new_appUTXO env hash i txo addr =
     \<lparr>UTXO = zero_UTXO\<lparr>AssetID := AssetID_String env (txo_AssetID txo),
               Amount := txo_Value txo,
               Outpoint := \<lparr>Hash = hash, Index = of_nat i\<rparr>\<rparr>,
      Addr = addr, ManagerNodeID = [], IsChange = False\<rparr>"

definition apply_rec :: "Receiver option \<Rightarrow> appUTXO \<Rightarrow> appUTXO" where
  "apply_rec rec u =
     (case rec of
        None \<Rightarrow> u
      | Some rc \<Rightarrow>
          u\<lparr>ManagerNodeID := rec_ManagerNodeID rc,
            UTXO := (UTXO u)\<lparr>AccountID := rec_AccountID rc,
                      AddrIndex := copy_AddrIndex (AddrIndex (UTXO u)) (rec_AddrIndex rc)\<rparr>,
            IsChange := rec_IsChange rc\<rparr>)"

text \<open>
  The loop runs over the outputs from position \<open>i\<close>. The address is derived first; then
  \<open>recs[i]\<close> is read, which panics past the end of \<open>recs\<close>.
\<close>

fun initAddrInfoFromRecs_loop ::
    "env \<Rightarrow> bytes \<Rightarrow> Receiver option list \<Rightarrow> nat \<Rightarrow> TxOutput list \<Rightarrow> appUTXO list result" where
  "initAddrInfoFromRecs_loop env hash recs i [] = Ok []"
| "initAddrInfoFromRecs_loop env hash recs i (txo # txouts) =
     (case PkScriptAddr env (txo_Script txo) of
        Inl err \<Rightarrow> Err (Wrap err ''bad pk script'')
      | Inr addr \<Rightarrow>
          if length recs \<le> i then Panic
          else
            (case initAddrInfoFromRecs_loop env hash recs (Suc i) txouts of
               Ok ins \<Rightarrow> Ok (apply_rec (recs ! i) (new_appUTXO env hash i txo addr) # ins)
             | Err err \<Rightarrow> Err err
             | Panic \<Rightarrow> Panic))"

definition initAddrInfoFromRecs ::
    "env \<Rightarrow> bytes \<Rightarrow> TxOutput list \<Rightarrow> Receiver option list \<Rightarrow> appUTXO list result" where
  "initAddrInfoFromRecs env hash txouts recs = initAddrInfoFromRecs_loop env hash recs 0 txouts"

text \<open>The inner loop of \<open>loadAddrInfoFromDB\<close>: one row of \<open>addresses\<close> against every output.\<close>

definition fill_from_row :: "address_row \<Rightarrow> appUTXO \<Rightarrow> appUTXO" where
  "fill_from_row r u =
     (if AccountID (UTXO u) = [] \<and> Addr u = address r
      then u\<lparr>ManagerNodeID := a_manager_node_id r,
             UTXO := (UTXO u)\<lparr>AccountID := a_account_id r,
                       AddrIndex := copy_AddrIndex (AddrIndex (UTXO u)) (a_key_index r)\<rparr>,
             IsChange := a_is_change r\<rparr>
      else u)"

fun scan_addresses :: "faults \<Rightarrow> nat \<Rightarrow> address_row list \<Rightarrow> appUTXO list \<Rightarrow> appUTXO list result" where
  "scan_addresses flt n [] us =
     (case rows_err flt SelectAddresses of
        Some err \<Rightarrow> Err (Wrap err ''rows'')
      | None \<Rightarrow> Ok us)"
| "scan_addresses flt n (r # rows) us =
     (case scan_err flt SelectAddresses n of
        Some err \<Rightarrow> Err (Wrap err ''scan'')
      | None \<Rightarrow> scan_addresses flt (Suc n) rows (map (fill_from_row r) us))"

text \<open>
  The function changes the outputs in place and returns an error; here it returns the
  changed outputs. The query returns the rows of \<open>addresses\<close> whose address is among
  \<open>addrs\<close>, in the order of the table.
\<close>

definition loadAddrInfoFromDB :: "faults \<Rightarrow> appUTXO list \<Rightarrow> world \<Rightarrow> appUTXO list result \<times> world" where
  "loadAddrInfoFromDB flt us w =
     (let addrs = map Addr (filter (\<lambda>u. AccountID (UTXO u) = []) us);
          w1 = w\<lparr>calls := calls w @ [Query_addresses addrs]\<rparr>
      in case exec_err flt SelectAddresses of
           Some err \<Rightarrow> (Err (Wrap err ''select''), w1)
         | None \<Rightarrow>
             (scan_addresses flt 0 (filter (\<lambda>r. address r \<in> set addrs) (addresses w1)) us, w1))"

text \<open>The loop of \<open>insertUTXOs\<close> that fills the arrays, from position \<open>i\<close>.\<close>

fun utxoSet_loop :: "nat \<Rightarrow> appUTXO list \<Rightarrow> utxoSet \<Rightarrow> utxoSet result" where
  "utxoSet_loop i [] outs = Ok outs"
| "utxoSet_loop i (u # ins) outs =
     (case toKeyIndex [fst (AddrIndex (UTXO u)), snd (AddrIndex (UTXO u))] of
        Ok k \<Rightarrow>
          utxoSet_loop (Suc i) ins
            (outs\<lparr>us_index := us_index outs @ [of_nat i],
                  us_assetID := us_assetID outs @ [AssetID (UTXO u)],
                  us_amount := us_amount outs @ [Amount (UTXO u)],
                  us_accountID := us_accountID outs @ [AccountID (UTXO u)],
                  us_managerNodeID := us_managerNodeID outs @ [ManagerNodeID u],
                  us_aIndex := us_aIndex outs @ [k]\<rparr>)
      | Err err \<Rightarrow> Err err
      | Panic \<Rightarrow> Panic)"

text \<open>
  The rows of \<open>INSERT INTO utxos (txid, index, asset_id, amount, account_id,
  manager_node_id, addr_index) SELECT $1, unnest($2), ..., unnest($7)\<close>: the six arrays
  have the same length and are unnested in step.
\<close>

definition insert_rows :: "string \<Rightarrow> utxoSet \<Rightarrow> utxo_row list" where
  "insert_rows t outs =
     map (\<lambda>(i, a, m, c, n, k).
            \<lparr>txid = t, index = i, asset_id = a, amount = m, account_id = c,
             manager_node_id = n, addr_index = k, reserved_until = None\<rparr>)
         (zip (us_index outs) (zip (us_assetID outs) (zip (us_amount outs)
           (zip (us_accountID outs) (zip (us_managerNodeID outs) (us_aIndex outs))))))"

definition insertUTXOs ::
    "env \<Rightarrow> faults \<Rightarrow> bytes \<Rightarrow> TxOutput list \<Rightarrow> Receiver option list \<Rightarrow> world
       \<Rightarrow> appUTXO list result \<times> world" where
  "insertUTXOs env flt hash txouts recs w =
     (if length txouts \<noteq> length recs then (Err (New ''length mismatch''), w)
      else
        case initAddrInfoFromRecs env hash txouts recs of
          Err err \<Rightarrow> (Err err, w)
        | Panic \<Rightarrow> (Panic, w)
        | Ok ins0 \<Rightarrow>
            (case loadAddrInfoFromDB flt ins0 w of
               (Err err, w1) \<Rightarrow> (Err err, w1)
             | (Panic, w1) \<Rightarrow> (Panic, w1)
             | (Ok ins, w1) \<Rightarrow>
                 (case utxoSet_loop 0 ins
                         \<lparr>us_txid = Hash_String env hash, us_index = [], us_assetID = [],
                          us_amount = [], us_addr = [], us_accountID = [],
                          us_managerNodeID = [], us_aIndex = []\<rparr> of
                    Err err \<Rightarrow> (Err err, w1)
                  | Panic \<Rightarrow> (Panic, w1)
                  | Ok outs \<Rightarrow>
                      (let w2 = w1\<lparr>calls := calls w1 @ [Exec_insert (Hash_String env hash) outs]\<rparr>
                       in case exec_err flt InsertUTXOs of
                            Some err \<Rightarrow> (Err (Wrap err []), w2)
                          | None \<Rightarrow>
                              (Ok ins,
                               w2\<lparr>utxos := utxos w2 @ insert_rows (Hash_String env hash) outs\<rparr>)))))"

section \<open>Applying a transaction\<close>

text \<open>
  \<open>now\<close> is the reading of the clock at the start of the call. The type assertion
  \<open>pg.FromContext(ctx).(pg.Tx)\<close> panics when the handle is not a transaction.
\<close>

definition ApplyTx ::
    "env \<Rightarrow> faults \<Rightarrow> handle \<Rightarrow> time \<Rightarrow> Tx \<Rightarrow> Receiver option list \<Rightarrow> world
       \<Rightarrow> (UTXO list \<times> UTXO list) result \<times> world" where
  "ApplyTx env flt ctx now tx outRecs w =
     (let hash = Tx_Hash env tx
      in if ctx \<noteq> InTx then (Panic, w)
         else
           case insertUTXOs env flt hash (Outputs tx) outRecs w of
             (Err err, w1) \<Rightarrow> (Err (Wrap err ''insert''), w1)
           | (Panic, w1) \<Rightarrow> (Panic, w1)
           | (Ok insUTXOs, w1) \<Rightarrow>
               (let localUTXOs = filter (\<lambda>utxo. ManagerNodeID utxo \<noteq> []) insUTXOs;
                    w2 = w1\<lparr>calls := calls w1 @ [Call_WriteActivity tx localUTXOs now]\<rparr>
                in case WriteActivity env w1 tx localUTXOs now of
                     Some err \<Rightarrow> (Err (Wrap err ''creating activity items''), w2)
                   | None \<Rightarrow>
                       (case deleteUTXOs env flt (Inputs tx) w2 of
                          (Err err, w3) \<Rightarrow> (Err (Wrap err ''delete''), w3)
                        | (Panic, w3) \<Rightarrow> (Panic, w3)
                        | (Ok deleted, w3) \<Rightarrow> (Ok (deleted, map UTXO localUTXOs), w3))))"

section \<open>A small ledger to run the functions on\<close>

text \<open>
  Hashes, asset identifiers and scripts of one byte: byte 1 is written \<open>a\<close>, byte 2
  \<open>b\<close>, any other byte \<open>z\<close>; the empty script has no address. The hash of a
  transaction is the number of its inputs. Nothing fails in the storage layer, and the
  activity recorder accepts every call.
\<close>

definition ex_string :: "bytes \<Rightarrow> string" where
  "ex_string h =
     map (\<lambda>b. if b = 1 then CHR ''a'' else if b = 2 then CHR ''b'' else CHR ''z'') h"

definition ex_env :: env where
  "ex_env =
     \<lparr>Hash_String = ex_string,
      ParseHash = (\<lambda>s. if s = [] then Inl (New ''empty hash'')
                        else Inr (map (\<lambda>c. if c = CHR ''a'' then 1
                                            else if c = CHR ''b'' then 2 else 3) s)),
      AssetID_String = ex_string,
      PkScriptAddr = (\<lambda>s. if s = [] then Inl (New ''no address'') else Inr (ex_string s)),
      Tx_Hash = (\<lambda>tx. [of_nat (length (Inputs tx))]),
      WriteActivity = (\<lambda>w tx us now. None)\<rparr>"

definition ex_faults :: faults where
  "ex_faults = \<lparr>exec_err = (\<lambda>s. None), scan_err = (\<lambda>s n. None), rows_err = (\<lambda>s. None)\<rparr>"

text \<open>
  Two unspent outputs of an earlier transaction \<open>z\<close>, the second one owned by a third
  party and reserved; one registered address \<open>b\<close>.
\<close>

definition ex_world :: world where
  "ex_world =
     \<lparr>utxos =
        [\<lparr>txid = ''z'', index = 0, asset_id = ''a'', amount = 50, account_id = ''acc9'',
          manager_node_id = ''mn9'', addr_index = 1, reserved_until = None\<rparr>,
         \<lparr>txid = ''z'', index = 1, asset_id = ''a'', amount = 60, account_id = [],
          manager_node_id = [], addr_index = 0, reserved_until = Some 5\<rparr>],
      addresses =
        [\<lparr>address = ''b'', a_account_id = ''acc2'', a_manager_node_id = ''mn2'',
          a_key_index = [0, 5], a_is_change = False\<rparr>],
      calls = []\<rparr>"

text \<open>
  A transaction that spends output 0 of \<open>z\<close> and names output 7 of \<open>z\<close>, which does
  not exist. Its first output comes with a hint, the second pays the registered address,
  the third an unknown address.
\<close>

definition ex_tx :: Tx where
  "ex_tx =
     \<lparr>Inputs = [\<lparr>Previous = \<lparr>Hash = [3], Index = 0\<rparr>\<rparr>,
                \<lparr>Previous = \<lparr>Hash = [3], Index = 7\<rparr>\<rparr>],
      Outputs =
        [\<lparr>txo_AssetID = [1], txo_Value = 10, txo_Script = [1]\<rparr>,
         \<lparr>txo_AssetID = [1], txo_Value = 20, txo_Script = [2]\<rparr>,
         \<lparr>txo_AssetID = [1], txo_Value = 30, txo_Script = [3]\<rparr>]\<rparr>"

definition ex_hint :: Receiver where
  "ex_hint =
     \<lparr>rec_ManagerNodeID = ''mn1'', rec_AccountID = ''acc1'', rec_AddrIndex = [0, 1],
      rec_IsChange = True\<rparr>"

definition ex_recs :: "Receiver option list" where
  "ex_recs = [Some ex_hint, None, None]"

text \<open>The same collaborators, with an activity recorder that refuses every call.\<close>

definition ex_env_no_activity :: env where
  "ex_env_no_activity = ex_env\<lparr>WriteActivity := (\<lambda>w tx us now. Some (New ''no activity''))\<rparr>"

text \<open>
  What applying \<open>ex_tx\<close> to \<open>ex_world\<close> is expected to return: the two outputs
  with a manager node, and the record of the one row that was spent.
\<close>

definition ex_inserted :: "appUTXO list" where
  "ex_inserted =
     [\<lparr>UTXO = \<lparr>AccountID = ''acc1'', AssetID = ''a'', Amount = 10,
               Outpoint = \<lparr>Hash = [2], Index = 0\<rparr>, ResvExpires = 0, AddrIndex = (0, 1)\<rparr>,
       Addr = ''a'', ManagerNodeID = ''mn1'', IsChange = True\<rparr>,
      \<lparr>UTXO = \<lparr>AccountID = ''acc2'', AssetID = ''a'', Amount = 20,
               Outpoint = \<lparr>Hash = [2], Index = 1\<rparr>, ResvExpires = 0, AddrIndex = (0, 5)\<rparr>,
       Addr = ''b'', ManagerNodeID = ''mn2'', IsChange = False\<rparr>]"

definition ex_deleted :: "UTXO list" where
  "ex_deleted =
     [\<lparr>AccountID = ''acc9'', AssetID = ''a'', Amount = 0,
       Outpoint = \<lparr>Hash = [3], Index = 0\<rparr>, ResvExpires = 0, AddrIndex = (0, 0)\<rparr>]"

text \<open>
  A hint that names a manager node but no account, an output whose script has no
  address, and an output that pays the registered address \<open>b\<close>.
\<close>

definition ex_hint_no_account :: Receiver where
  "ex_hint_no_account = ex_hint\<lparr>rec_AccountID := []\<rparr>"

definition ex_txo_no_address :: TxOutput where
  "ex_txo_no_address = \<lparr>txo_AssetID = [1], txo_Value = 10, txo_Script = []\<rparr>"

definition ex_txo_registered :: TxOutput where
  "ex_txo_registered = \<lparr>txo_AssetID = [1], txo_Value = 10, txo_Script = [2]\<rparr>"

text \<open>The three resolved outputs of \<open>ex_tx\<close>.\<close>

definition ex_resolved :: "appUTXO list" where
  "ex_resolved =
     ex_inserted @
     [\<lparr>UTXO = \<lparr>AccountID = [], AssetID = ''a'', Amount = 30,
               Outpoint = \<lparr>Hash = [2], Index = 2\<rparr>, ResvExpires = 0, AddrIndex = (0, 0)\<rparr>,
       Addr = ''z'', ManagerNodeID = [], IsChange = False\<rparr>]"

section \<open>Properties of the key index\<close>

lemma mask31_word: "(0x7fffffff :: 'a::len word) = mask 31"
  by (simp add: mask_eq_exp_minus_1)

lemma mask31_int: "(0x7fffffff :: int) = mask 31"
  by (simp add: mask_eq_exp_minus_1)

lemma toKeyIndex_pair:
  "toKeyIndex [a, b] = Ok (push_bit 31 (ucast a) OR ucast (b AND mask 31))"
  by (simp add: toKeyIndex_def mask31_word)

lemma bit_pack:
  "bit (push_bit 31 (ucast (a :: 32 word) :: 64 word) OR ucast ((b :: 32 word) AND mask 31)) n
     \<longleftrightarrow> n < 31 \<and> bit b n \<or> 31 \<le> n \<and> n < 63 \<and> bit a (n - 31)"
  by (auto simp add: bit_simps dest: bit_imp_le_length)

lemma sint_pack:
  "sint (push_bit 31 (ucast (a :: 32 word) :: 64 word) OR ucast ((b :: 32 word) AND mask 31))
     = push_bit 31 (uint a) OR (uint b AND mask 31)"
proof (rule bit_eqI)
  fix n
  have "bit a (m - 31) \<Longrightarrow> m - 31 < 32" for m
    using bit_imp_le_length [of a "m - 31"] by simp
  from this [of n] this [of 63]
  show "bit (sint (push_bit 31 (ucast a :: 64 word) OR ucast (b AND mask 31))) n
      = bit (push_bit 31 (uint a) OR (uint b AND mask 31)) n"
    by (auto simp add: bit_simps bit_pack min_def)
qed

lemma bit_below_31:
  assumes "(b :: 32 word) < 2 ^ 31" and "bit b n"
  shows "n < 31"
proof -
  from assms(1) have "b AND mask 31 = b"
    by (simp add: less_mask_eq)
  with assms(2) show ?thesis
    by (metis bit_and_iff bit_mask_iff)
qed

lemma drop_pack:
  "ucast (drop_bit 31 (push_bit 31 (ucast (a :: 32 word) :: 64 word)
      OR ucast ((b :: 32 word) AND mask 31))) = a"
proof (rule bit_eqI)
  fix n
  show "bit (ucast (drop_bit 31 (push_bit 31 (ucast a :: 64 word) OR ucast (b AND mask 31)))
          :: 32 word) n = bit a n"
    using bit_imp_le_length [of a n]
    by (auto simp add: bit_simps bit_pack)
qed

lemma low_pack:
  assumes "(b :: 32 word) < 2 ^ 31"
  shows "ucast ((push_bit 31 (ucast (a :: 32 word) :: 64 word) OR ucast (b AND mask 31))
      AND mask 31) = b"
proof (rule bit_eqI)
  fix n
  show "bit (ucast ((push_bit 31 (ucast a :: 64 word) OR ucast (b AND mask 31)) AND mask 31)
          :: 32 word) n = bit b n"
    using bit_below_31 [OF assms, of n]
    by (auto simp add: bit_simps bit_pack)
qed

text \<open>
  C6. For every pair, the packer's result, read as a signed 64-bit integer, is the
  integer \<open>(a << 31) | (b & 0x7FFFFFFF)\<close>: nothing is lost to the width, and bit 31 of
  \<open>b\<close> is masked away. For \<open>a\<close> and \<open>b\<close> below \<open>2^31\<close>, unpacking the packed value
  gives back the pair.
\<close>

theorem toKeyIndex_roundtrip:
  "\<exists>k. toKeyIndex [a, b] = Ok k
      \<and> sint k = push_bit 31 (uint a) OR (uint b AND 0x7fffffff)
      \<and> (a < 2 ^ 31 \<and> b < 2 ^ 31 \<longrightarrow> key_index k = [a, b])"
proof -
  let ?k = "push_bit 31 (ucast a :: 64 word) OR ucast (b AND mask 31)"
  have "toKeyIndex [a, b] = Ok ?k"
    by (rule toKeyIndex_pair)
  moreover have "sint ?k = push_bit 31 (uint a) OR (uint b AND 0x7fffffff)"
    by (simp only: sint_pack mask31_int)
  moreover have "key_index ?k = [a, b]" if "b < 2 ^ 31"
    by (simp only: key_index_def mask31_word drop_pack low_pack [OF that])
  ultimately show ?thesis
    by blast
qed

theorem toKeyIndex_roundtrip_witness:
  "(5 :: 32 word) < 2 ^ 31 \<and> (7 :: 32 word) < 2 ^ 31
   \<and> (\<exists>k. toKeyIndex [5, 7] = Ok k
          \<and> sint k = push_bit 31 (uint (5 :: 32 word)) OR (uint (7 :: 32 word) AND 0x7fffffff)
          \<and> key_index k = [5, 7])
   \<and> (\<exists>k. toKeyIndex [0, 0x80000000] = Ok k \<and> sint k = 0)"
proof -
  have "push_bit 31 (uint (0 :: 32 word)) OR (uint (0x80000000 :: 32 word) AND 0x7fffffff)
          = (0 :: int)"
    by simp
  with toKeyIndex_roundtrip [of 0 "0x80000000"]
  have "\<exists>k. toKeyIndex [0, 0x80000000] = Ok k \<and> sint k = 0"
    by auto
  with toKeyIndex_roundtrip [of 5 7] show ?thesis
    by simp
qed

text \<open>
  C10. For every pair the result of \<open>toKeyIndex\<close> is a non-negative \<open>int64\<close> whose bits
  from 31 upwards are all 32 bits of the first component, and two pairs whose second
  components are below \<open>2^31\<close> are packed to the same value only if they are equal.
\<close>

theorem toKeyIndex_nonneg_inj:
  "(\<exists>k. toKeyIndex [a, b] = Ok k \<and> 0 \<le> sint k \<and> ucast (drop_bit 31 k) = a)
   \<and> (b < 2 ^ 31 \<and> b' < 2 ^ 31 \<and> toKeyIndex [a, b] = toKeyIndex [a', b']
        \<longrightarrow> a = a' \<and> b = b')"
proof
  let ?k = "push_bit 31 (ucast a :: 64 word) OR ucast (b AND mask 31)"
  have "toKeyIndex [a, b] = Ok ?k"
    by (rule toKeyIndex_pair)
  moreover have "0 \<le> sint ?k"
    by (simp add: sint_pack)
  moreover have "ucast (drop_bit 31 ?k) = a"
    by (rule drop_pack)
  ultimately show "\<exists>k. toKeyIndex [a, b] = Ok k \<and> 0 \<le> sint k \<and> ucast (drop_bit 31 k) = a"
    by blast
next
  show "b < 2 ^ 31 \<and> b' < 2 ^ 31 \<and> toKeyIndex [a, b] = toKeyIndex [a', b']
          \<longrightarrow> a = a' \<and> b = b'"
  proof
    assume h: "b < 2 ^ 31 \<and> b' < 2 ^ 31 \<and> toKeyIndex [a, b] = toKeyIndex [a', b']"
    let ?k = "push_bit 31 (ucast a :: 64 word) OR ucast (b AND mask 31)"
    let ?k' = "push_bit 31 (ucast a' :: 64 word) OR ucast (b' AND mask 31)"
    from h have eq: "?k = ?k'"
      by (simp add: toKeyIndex_pair)
    from h have lt: "b < 2 ^ 31" "b' < 2 ^ 31"
      by simp_all
    have "a = ucast (drop_bit 31 ?k)"
      by (simp only: drop_pack)
    also have "\<dots> = a'"
      by (simp only: eq drop_pack)
    finally have "a = a'" .
    moreover have "b = ucast (?k AND mask 31)"
      by (simp only: low_pack [OF lt(1)])
    then have "b = b'"
      by (simp only: eq low_pack [OF lt(2)])
    ultimately show "a = a' \<and> b = b'" ..
  qed
qed

theorem toKeyIndex_nonneg_inj_witness:
  "(\<exists>k. toKeyIndex [0xffffffff, 1] = Ok k \<and> 0 \<le> sint k \<and> ucast (drop_bit 31 k) = (0xffffffff :: 32 word))
   \<and> (1 :: 32 word) < 2 ^ 31
   \<and> toKeyIndex [0xffffffff, 1] = toKeyIndex [0xffffffff, 1]"
  using toKeyIndex_nonneg_inj [of "0xffffffff" 1 1 "0xffffffff"] by simp

section \<open>The loops and the statements\<close>


lemma utxoSet_loop_Ok:
  "\<exists>outs'. utxoSet_loop i us outs = Ok outs'
     \<and> us_txid outs' = us_txid outs
     \<and> us_addr outs' = us_addr outs
     \<and> us_index outs' = us_index outs @ map of_nat [i..<i + length us]
     \<and> us_assetID outs' = us_assetID outs @ map (\<lambda>u. AssetID (UTXO u)) us
     \<and> us_amount outs' = us_amount outs @ map (\<lambda>u. Amount (UTXO u)) us
     \<and> us_accountID outs' = us_accountID outs @ map (\<lambda>u. AccountID (UTXO u)) us
     \<and> us_managerNodeID outs' = us_managerNodeID outs @ map ManagerNodeID us
     \<and> us_aIndex outs' = us_aIndex outs @
          map (\<lambda>u. push_bit 31 (ucast (fst (AddrIndex (UTXO u)))) OR
                    ucast (snd (AddrIndex (UTXO u)) AND mask 31)) us"
proof (induction us arbitrary: i outs)
  case Nil
  then show ?case by simp
next
  case (Cons u us)
  let ?k = "push_bit 31 (ucast (fst (AddrIndex (UTXO u))) :: 64 word) OR
                    ucast (snd (AddrIndex (UTXO u)) AND mask 31)"
  let ?outs = "outs\<lparr>us_index := us_index outs @ [of_nat i],
                  us_assetID := us_assetID outs @ [AssetID (UTXO u)],
                  us_amount := us_amount outs @ [Amount (UTXO u)],
                  us_accountID := us_accountID outs @ [AccountID (UTXO u)],
                  us_managerNodeID := us_managerNodeID outs @ [ManagerNodeID u],
                  us_aIndex := us_aIndex outs @ [?k]\<rparr>"
  have step: "utxoSet_loop i (u # us) outs = utxoSet_loop (Suc i) us ?outs"
    by (simp add: toKeyIndex_pair)
  have upt: "[i..<i + length (u # us)] = i # [Suc i..<Suc i + length us]"
    by (subst upt_rec) simp
  from Cons.IH [of "Suc i" ?outs] show ?case
    unfolding step upt by auto
qed

lemma initAddrInfoFromRecs_loop_no_Panic:
  "i + length txouts \<le> length recs \<Longrightarrow> initAddrInfoFromRecs_loop env hash recs i txouts \<noteq> Panic"
  by (induction txouts arbitrary: i) (auto split: sum.splits result.splits)

lemma initAddrInfoFromRecs_loop_Ok:
  "initAddrInfoFromRecs_loop env hash recs i txouts = Ok ins \<Longrightarrow>
     length ins = length txouts \<and>
     (\<forall>j < length txouts.
        PkScriptAddr env (txo_Script (txouts ! j)) = Inr (Addr (ins ! j)) \<and>
        ins ! j = apply_rec (recs ! (i + j))
                    (new_appUTXO env hash (i + j) (txouts ! j) (Addr (ins ! j))))"
proof (induction txouts arbitrary: i ins)
  case Nil
  then show ?case by simp
next
  case (Cons txo txouts)
  from Cons.prems obtain addr ins' where
    a: "PkScriptAddr env (txo_Script txo) = Inr addr" and
    r: "initAddrInfoFromRecs_loop env hash recs (Suc i) txouts = Ok ins'" and
    i: "ins = apply_rec (recs ! i) (new_appUTXO env hash i txo addr) # ins'"
    by (auto split: sum.splits if_splits result.splits)
  have addr: "Addr (apply_rec rc (new_appUTXO env hash i txo addr)) = addr" for rc
    by (simp add: apply_rec_def new_appUTXO_def split: option.splits)
  from Cons.IH [OF r] a i addr show ?case
    by (auto simp add: nth_Cons split: nat.splits)
qed

lemma initAddrInfoFromRecs_loop_Err:
  "initAddrInfoFromRecs_loop env hash recs i txouts = Err e \<Longrightarrow>
     \<exists>j < length txouts. \<exists>e'. PkScriptAddr env (txo_Script (txouts ! j)) = Inl e'
        \<and> e = Wrap e' ''bad pk script''"
proof (induction txouts arbitrary: i)
  case Nil
  then show ?case by simp
next
  case (Cons txo txouts)
  show ?case
  proof (cases "PkScriptAddr env (txo_Script txo)")
    case (Inl e')
    with Cons.prems show ?thesis by auto
  next
    case (Inr addr)
    with Cons.prems have "initAddrInfoFromRecs_loop env hash recs (Suc i) txouts = Err e"
      by (auto split: if_splits result.splits)
    from Cons.IH [OF this] obtain j e' where "j < length txouts"
      "PkScriptAddr env (txo_Script (txouts ! j)) = Inl e'" "e = Wrap e' ''bad pk script''"
      by blast
    then have "Suc j < length (txo # txouts) \<and>
       PkScriptAddr env (txo_Script ((txo # txouts) ! Suc j)) = Inl e' \<and> e = Wrap e' ''bad pk script''"
      by simp
    then show ?thesis by blast
  qed
qed


lemma scan_addresses_no_Panic: "scan_addresses flt n rows us \<noteq> Panic"
  by (induction rows arbitrary: n us) (auto split: option.splits)

lemma scan_addresses_Ok:
  "scan_addresses flt n rows us = Ok us' \<Longrightarrow> us' = map (fold fill_from_row rows) us"
proof (induction rows arbitrary: n us)
  case Nil
  then show ?case by (simp split: option.splits)
next
  case (Cons r rows)
  from Cons.prems have "scan_addresses flt (Suc n) rows (map (fill_from_row r) us) = Ok us'"
    by (simp split: option.splits)
  from Cons.IH [OF this] show ?case by simp
qed

lemma fill_from_row_frame:
  "Addr (fill_from_row r u) = Addr u"
  "AssetID (UTXO (fill_from_row r u)) = AssetID (UTXO u)"
  "Amount (UTXO (fill_from_row r u)) = Amount (UTXO u)"
  "Outpoint (UTXO (fill_from_row r u)) = Outpoint (UTXO u)"
  "ResvExpires (UTXO (fill_from_row r u)) = ResvExpires (UTXO u)"
  by (simp_all add: fill_from_row_def)

lemma fold_fill_frame:
  "Addr (fold fill_from_row rows u) = Addr u"
  "AssetID (UTXO (fold fill_from_row rows u)) = AssetID (UTXO u)"
  "Amount (UTXO (fold fill_from_row rows u)) = Amount (UTXO u)"
  "Outpoint (UTXO (fold fill_from_row rows u)) = Outpoint (UTXO u)"
  "ResvExpires (UTXO (fold fill_from_row rows u)) = ResvExpires (UTXO u)"
  by (induction rows arbitrary: u) (simp_all add: fill_from_row_frame)

lemma fold_fill_owned:
  "AccountID (UTXO u) \<noteq> [] \<Longrightarrow> fold fill_from_row rows u = u"
  by (induction rows) (simp_all add: fill_from_row_def)

lemma fold_fill_unmatched:
  "\<forall>r \<in> set rows. address r \<noteq> Addr u \<Longrightarrow> fold fill_from_row rows u = u"
  by (induction rows) (auto simp add: fill_from_row_def)

lemma fold_fill_matched:
  assumes "distinct (map address rows)" and "r \<in> set rows" and "address r = Addr u"
  shows "fold fill_from_row rows u = fill_from_row r u"
  using assms
proof (induction rows)
  case Nil
  then show ?case by simp
next
  case (Cons r' rows)
  show ?case
  proof (cases "r' = r")
    case True
    from Cons.prems(1) have "\<forall>x \<in> set rows. address x \<noteq> address r'"
      by (force simp add: image_iff)
    with True Cons.prems(3) have "\<forall>x \<in> set rows. address x \<noteq> Addr (fill_from_row r u)"
      by (simp add: fill_from_row_frame)
    then have "fold fill_from_row rows (fill_from_row r u) = fill_from_row r u"
      by (rule fold_fill_unmatched)
    with True show ?thesis by simp
  next
    case False
    with Cons.prems have r: "r \<in> set rows"
      by simp
    with Cons.prems(1) have "address r' \<noteq> address r"
      by (force simp add: image_iff)
    with Cons.prems(3) have "fill_from_row r' u = u"
      by (simp add: fill_from_row_def)
    moreover from Cons.prems(1) have "distinct (map address rows)"
      by simp
    ultimately show ?thesis
      using Cons.IH r Cons.prems(3) by simp
  qed
qed

lemma loadAddrInfoFromDB_no_Panic: "fst (loadAddrInfoFromDB flt us w) \<noteq> Panic"
  by (simp add: loadAddrInfoFromDB_def Let_def scan_addresses_no_Panic split: option.splits)

lemma loadAddrInfoFromDB_world:
  "loadAddrInfoFromDB flt us w = (res, w') \<Longrightarrow>
     w' = w\<lparr>calls := calls w @
            [Query_addresses (map Addr (filter (\<lambda>u. AccountID (UTXO u) = []) us))]\<rparr>"
  by (auto simp add: loadAddrInfoFromDB_def Let_def split: option.splits)

lemma loadAddrInfoFromDB_Ok:
  assumes "loadAddrInfoFromDB flt us w = (Ok us', w')"
  shows "us' = map (fold fill_from_row
            (filter (\<lambda>r. address r \<in> Addr ` {u \<in> set us. AccountID (UTXO u) = []})
               (addresses w))) us"
  using assms
  by (auto simp add: loadAddrInfoFromDB_def Let_def  split: option.splits
      dest!: scan_addresses_Ok)

lemma lookup_one:
  assumes "distinct (map address tbl)" and "u \<in> set us"
  shows "fold fill_from_row
            (filter (\<lambda>r. address r \<in> Addr ` {u \<in> set us. AccountID (UTXO u) = []}) tbl) u
         = (case find (\<lambda>r. address r = Addr u) tbl of
              None \<Rightarrow> u
            | Some r \<Rightarrow> fill_from_row r u)"
proof (cases "AccountID (UTXO u) = []")
  case False
  then have "fold fill_from_row rows u = u" for rows
    by (rule fold_fill_owned)
  moreover from False have "fill_from_row r u = u" for r
    by (simp add: fill_from_row_def)
  ultimately show ?thesis
    by (simp split: option.splits)
next
  case True
  let ?rows = "filter (\<lambda>r. address r \<in> Addr ` {u \<in> set us. AccountID (UTXO u) = []}) tbl"
  show ?thesis
  proof (cases "find (\<lambda>r. address r = Addr u) tbl")
    case None
    then have "\<forall>r \<in> set ?rows. address r \<noteq> Addr u"
      by (auto simp add: find_None_iff)
    then show ?thesis
      using None by (simp add: fold_fill_unmatched)
  next
    case (Some r)
    then have "r \<in> set tbl" "address r = Addr u"
      by (auto simp add: find_Some_iff)
    with True assms(2) have "r \<in> set ?rows"
      by auto
    moreover from assms(1) have "distinct (map address ?rows)"
      by (rule distinct_map_filter)
    ultimately show ?thesis
      using Some \<open>address r = Addr u\<close> by (simp add: fold_fill_matched)
  qed
qed


lemma inserted_rows:
  assumes "utxoSet_loop 0 ins
             \<lparr>us_txid = t0, us_index = [], us_assetID = [], us_amount = [], us_addr = [],
              us_accountID = [], us_managerNodeID = [], us_aIndex = []\<rparr> = Ok outs"
  shows "length (insert_rows t outs) = length ins"
    and "i < length ins \<Longrightarrow>
           insert_rows t outs ! i =
             \<lparr>txid = t, index = of_nat i, asset_id = AssetID (UTXO (ins ! i)),
              amount = Amount (UTXO (ins ! i)), account_id = AccountID (UTXO (ins ! i)),
              manager_node_id = ManagerNodeID (ins ! i),
              addr_index = push_bit 31 (ucast (fst (AddrIndex (UTXO (ins ! i))))) OR
                           ucast (snd (AddrIndex (UTXO (ins ! i))) AND mask 31),
              reserved_until = None\<rparr>"
proof -
  from utxoSet_loop_Ok [of 0 ins "\<lparr>us_txid = t0, us_index = [], us_assetID = [], us_amount = [], us_addr = [],
              us_accountID = [], us_managerNodeID = [], us_aIndex = []\<rparr>"] assms
  have a: "us_index outs = map of_nat [0..<length ins]"
    "us_assetID outs = map (\<lambda>u. AssetID (UTXO u)) ins"
    "us_amount outs = map (\<lambda>u. Amount (UTXO u)) ins"
    "us_accountID outs = map (\<lambda>u. AccountID (UTXO u)) ins"
    "us_managerNodeID outs = map ManagerNodeID ins"
    "us_aIndex outs = map (\<lambda>u. push_bit 31 (ucast (fst (AddrIndex (UTXO u)))) OR
                    ucast (snd (AddrIndex (UTXO u)) AND mask 31)) ins"
    by auto
  show "length (insert_rows t outs) = length ins"
    by (simp add: insert_rows_def a)
  show "insert_rows t outs ! i =
             \<lparr>txid = t, index = of_nat i, asset_id = AssetID (UTXO (ins ! i)),
              amount = Amount (UTXO (ins ! i)), account_id = AccountID (UTXO (ins ! i)),
              manager_node_id = ManagerNodeID (ins ! i),
              addr_index = push_bit 31 (ucast (fst (AddrIndex (UTXO (ins ! i))))) OR
                           ucast (snd (AddrIndex (UTXO (ins ! i))) AND mask 31),
              reserved_until = None\<rparr>" if "i < length ins"
    using that by (simp add: insert_rows_def a)
qed

lemma insertUTXOs_mismatch:
  "length txouts \<noteq> length recs \<Longrightarrow>
     insertUTXOs env flt hash txouts recs w = (Err (New ''length mismatch''), w)"
  by (simp add: insertUTXOs_def)

lemma utxoSet_loop_cases:
  obtains outs where "utxoSet_loop i us outs0 = Ok outs"
  using utxoSet_loop_Ok [of i us outs0] by blast

lemma insertUTXOs_no_Panic: "fst (insertUTXOs env flt hash txouts recs w) \<noteq> Panic"
proof (cases "length txouts = length recs")
  case False
  then show ?thesis by (simp add: insertUTXOs_mismatch)
next
  case True
  then have np: "initAddrInfoFromRecs env hash txouts recs \<noteq> Panic"
    by (simp add: initAddrInfoFromRecs_def initAddrInfoFromRecs_loop_no_Panic)
  show ?thesis
  proof (cases "initAddrInfoFromRecs env hash txouts recs")
    case Panic
    with np show ?thesis by simp
  next
    case (Err e)
    with True show ?thesis by (simp add: insertUTXOs_def)
  next
    case (Ok ins0)
    obtain r1 w1 where l: "loadAddrInfoFromDB flt ins0 w = (r1, w1)"
      by (cases "loadAddrInfoFromDB flt ins0 w")
    with loadAddrInfoFromDB_no_Panic [of flt ins0 w] have r1: "r1 \<noteq> Panic"
      by simp
    show ?thesis
    proof (cases r1)
      case Panic
      with r1 show ?thesis by simp
    next
      case (Err e)
      with True Ok l show ?thesis by (simp add: insertUTXOs_def)
    next
      case ok: (Ok ins)
      obtain outs where "utxoSet_loop 0 ins
             \<lparr>us_txid = Hash_String env hash, us_index = [], us_assetID = [], us_amount = [], us_addr = [],
              us_accountID = [], us_managerNodeID = [], us_aIndex = []\<rparr> = Ok outs"
        by (rule utxoSet_loop_cases)
      with True Ok l ok show ?thesis
        by (simp add: insertUTXOs_def Let_def split: option.splits)
    qed
  qed
qed

lemma insertUTXOs_Ok:
  assumes "insertUTXOs env flt hash txouts recs w = (Ok ins, w')"
  obtains ins0 outs where
    "length txouts = length recs"
    "initAddrInfoFromRecs env hash txouts recs = Ok ins0"
    "ins = map (fold fill_from_row
            (filter (\<lambda>r. address r \<in> Addr ` {u \<in> set ins0. AccountID (UTXO u) = []})
               (addresses w))) ins0"
    "utxoSet_loop 0 ins
             \<lparr>us_txid = Hash_String env hash, us_index = [], us_assetID = [], us_amount = [], us_addr = [],
              us_accountID = [], us_managerNodeID = [], us_aIndex = []\<rparr> = Ok outs"
    "exec_err flt InsertUTXOs = None"
    "w' = w\<lparr>calls := calls w @
               [Query_addresses (map Addr (filter (\<lambda>u. AccountID (UTXO u) = []) ins0)),
                Exec_insert (Hash_String env hash) outs],
             utxos := utxos w @ insert_rows (Hash_String env hash) outs\<rparr>"
proof -
  from assms have len: "length txouts = length recs"
    by (auto simp add: insertUTXOs_def split: if_splits)
  from assms len obtain ins0 where i0: "initAddrInfoFromRecs env hash txouts recs = Ok ins0"
    by (auto simp add: insertUTXOs_def split: result.splits)
  obtain r1 w1 where l: "loadAddrInfoFromDB flt ins0 w = (r1, w1)"
    by (cases "loadAddrInfoFromDB flt ins0 w")
  have r1: "r1 = Ok ins"
  proof (cases r1)
    case Panic
    with assms len i0 l show ?thesis by (simp add: insertUTXOs_def)
  next
    case (Err e)
    with assms len i0 l show ?thesis by (simp add: insertUTXOs_def)
  next
    case (Ok x)
    obtain outs where "utxoSet_loop 0 x
             \<lparr>us_txid = Hash_String env hash, us_index = [], us_assetID = [], us_amount = [], us_addr = [],
              us_accountID = [], us_managerNodeID = [], us_aIndex = []\<rparr> = Ok outs"
      by (rule utxoSet_loop_cases)
    with assms len i0 l Ok show ?thesis
      by (simp add: insertUTXOs_def Let_def split: option.splits)
  qed
  obtain outs where u: "utxoSet_loop 0 ins
             \<lparr>us_txid = Hash_String env hash, us_index = [], us_assetID = [], us_amount = [], us_addr = [],
              us_accountID = [], us_managerNodeID = [], us_aIndex = []\<rparr> = Ok outs"
    by (rule utxoSet_loop_cases)
  from assms len i0 l r1 u have e: "exec_err flt InsertUTXOs = None"
    and w': "w' = w1\<lparr>calls := calls w1 @ [Exec_insert (Hash_String env hash) outs],
                 utxos := utxos w1 @ insert_rows (Hash_String env hash) outs\<rparr>"
    by (simp_all add: insertUTXOs_def Let_def split: option.splits)
  from l have w1: "w1 = w\<lparr>calls := calls w @
            [Query_addresses (map Addr (filter (\<lambda>u. AccountID (UTXO u) = []) ins0))]\<rparr>"
    by (rule loadAddrInfoFromDB_world)
  from l r1 have ins: "ins = map (fold fill_from_row
            (filter (\<lambda>r. address r \<in> Addr ` {u \<in> set ins0. AccountID (UTXO u) = []})
               (addresses w))) ins0"
    by (simp add: loadAddrInfoFromDB_Ok)
  show thesis
    by (rule that [OF len i0 ins u e]) (simp add: w' w1)
qed

lemma insertUTXOs_Err:
  assumes "insertUTXOs env flt hash txouts recs w = (Err e, w')"
  shows "utxos w' = utxos w \<and> addresses w' = addresses w \<and>
     (calls w' = calls w \<or> (\<exists>a. calls w' = calls w @ [Query_addresses a]) \<or>
      (\<exists>a t outs. calls w' = calls w @ [Query_addresses a, Exec_insert t outs]))"
proof (cases "length txouts = length recs")
  case False
  with assms show ?thesis by (simp add: insertUTXOs_mismatch)
next
  case True
  show ?thesis
  proof (cases "initAddrInfoFromRecs env hash txouts recs")
    case Panic
    with assms True show ?thesis by (simp add: insertUTXOs_def)
  next
    case (Err e')
    with assms True show ?thesis by (simp add: insertUTXOs_def)
  next
    case (Ok ins0)
    obtain r1 w1 where l: "loadAddrInfoFromDB flt ins0 w = (r1, w1)"
      by (cases "loadAddrInfoFromDB flt ins0 w")
    from l have w1: "w1 = w\<lparr>calls := calls w @
            [Query_addresses (map Addr (filter (\<lambda>u. AccountID (UTXO u) = []) ins0))]\<rparr>"
      by (rule loadAddrInfoFromDB_world)
    show ?thesis
    proof (cases r1)
      case Panic
      with assms True Ok l show ?thesis by (simp add: insertUTXOs_def)
    next
      case (Err e')
      with assms True Ok l have "w' = w1" by (simp add: insertUTXOs_def)
      then show ?thesis by (simp add: w1)
    next
      case ok: (Ok ins)
      obtain outs where "utxoSet_loop 0 ins
             \<lparr>us_txid = Hash_String env hash, us_index = [], us_assetID = [], us_amount = [], us_addr = [],
              us_accountID = [], us_managerNodeID = [], us_aIndex = []\<rparr> = Ok outs"
        by (rule utxoSet_loop_cases)
      with assms True Ok l ok
      have "w' = w1\<lparr>calls := calls w1 @ [Exec_insert (Hash_String env hash) outs]\<rparr>"
        by (auto simp add: insertUTXOs_def Let_def split: option.splits)
      then show ?thesis by (simp add: w1)
    qed
  qed
qed


lemma in_outpoints_inputs:
  "in_outpoints (map (\<lambda>i. Hash_String env (Hash (Previous i))) txins)
                (map (\<lambda>i. Index (Previous i)) txins) r
   \<longleftrightarrow> (\<exists>i \<in> set txins. txid r = Hash_String env (Hash (Previous i))
                           \<and> index r = Index (Previous i))"
  by (auto simp add: in_outpoints_def zip_map_map zip_same_conv_map)

lemma in_outpoints_utxos:
  "in_outpoints (map (\<lambda>u. Hash_String env (Hash (Outpoint u))) us)
                (map (\<lambda>u. Index (Outpoint u)) us) r
   \<longleftrightarrow> (\<exists>u \<in> set us. txid r = Hash_String env (Hash (Outpoint u))
                        \<and> index r = Index (Outpoint u))"
  by (auto simp add: in_outpoints_def zip_map_map zip_same_conv_map)

lemma in_outpoints_inputs_fun:
  "in_outpoints (map (\<lambda>i. Hash_String env (Hash (Previous i))) txins)
                (map (\<lambda>i. Index (Previous i)) txins)
   = (\<lambda>r. \<exists>i \<in> set txins. txid r = Hash_String env (Hash (Previous i))
                           \<and> index r = Index (Previous i))"
  by (rule ext) (rule in_outpoints_inputs)

lemma scan_deleted_no_Panic: "scan_deleted env flt n rows acc \<noteq> Panic"
  by (induction rows arbitrary: n acc) (auto split: option.splits sum.splits)

lemma scan_deleted_Ok:
  "scan_deleted env flt n rows acc = Ok deleted \<Longrightarrow>
     \<exists>ds. deleted = acc @ ds \<and>
       list_all2 (\<lambda>r d. ParseHash env (txid r) = Inr (Hash (Outpoint d)) \<and>
                    d = zero_UTXO\<lparr>AccountID := account_id r, AssetID := asset_id r,
                          Outpoint := \<lparr>Hash = Hash (Outpoint d), Index = index r\<rparr>\<rparr>) rows ds"
proof (induction rows arbitrary: n acc)
  case Nil
  then show ?case by (simp split: option.splits)
next
  case (Cons r rows)
  from Cons.prems obtain h where h: "ParseHash env (txid r) = Inr h"
    and rest: "scan_deleted env flt (Suc n) rows
                 (acc @ [zero_UTXO\<lparr>AccountID := account_id r, AssetID := asset_id r,
                     Outpoint := \<lparr>Hash = h, Index = index r\<rparr>\<rparr>]) = Ok deleted"
    by (auto split: option.splits sum.splits)
  from Cons.IH [OF rest] obtain ds where
    "deleted = (acc @ [zero_UTXO\<lparr>AccountID := account_id r, AssetID := asset_id r,
                     Outpoint := \<lparr>Hash = h, Index = index r\<rparr>\<rparr>]) @ ds"
    "list_all2 (\<lambda>r d. ParseHash env (txid r) = Inr (Hash (Outpoint d)) \<and>
                    d = zero_UTXO\<lparr>AccountID := account_id r, AssetID := asset_id r,
                          Outpoint := \<lparr>Hash = Hash (Outpoint d), Index = index r\<rparr>\<rparr>) rows ds"
    by blast
  with h have "deleted = acc @ (zero_UTXO\<lparr>AccountID := account_id r, AssetID := asset_id r,
                     Outpoint := \<lparr>Hash = h, Index = index r\<rparr>\<rparr> # ds) \<and>
     list_all2 (\<lambda>r d. ParseHash env (txid r) = Inr (Hash (Outpoint d)) \<and>
                    d = zero_UTXO\<lparr>AccountID := account_id r, AssetID := asset_id r,
                          Outpoint := \<lparr>Hash = Hash (Outpoint d), Index = index r\<rparr>\<rparr>) (r # rows)
       (zero_UTXO\<lparr>AccountID := account_id r, AssetID := asset_id r,
                     Outpoint := \<lparr>Hash = h, Index = index r\<rparr>\<rparr> # ds)"
    by simp
  then show ?case by blast
qed

lemma deleteUTXOs_no_Panic: "fst (deleteUTXOs env flt txins w) \<noteq> Panic"
  by (simp add: deleteUTXOs_def Let_def scan_deleted_no_Panic split: option.splits)

lemma deleteUTXOs_calls:
  "deleteUTXOs env flt txins w = (res, w') \<Longrightarrow>
     calls w' = calls w @ [Query_delete (map (\<lambda>i. Hash_String env (Hash (Previous i))) txins)
                              (map (\<lambda>i. Index (Previous i)) txins)]
     \<and> addresses w' = addresses w"
  by (auto simp add: deleteUTXOs_def Let_def split: option.splits)

lemma deleteUTXOs_Ok:
  assumes "deleteUTXOs env flt txins w = (Ok deleted, w')"
  shows "utxos w' = filter (\<lambda>r. \<not> (\<exists>i \<in> set txins. txid r = Hash_String env (Hash (Previous i))
                           \<and> index r = Index (Previous i))) (utxos w)"
    and "list_all2 (\<lambda>r d. ParseHash env (txid r) = Inr (Hash (Outpoint d)) \<and>
                    d = zero_UTXO\<lparr>AccountID := account_id r, AssetID := asset_id r,
                          Outpoint := \<lparr>Hash = Hash (Outpoint d), Index = index r\<rparr>\<rparr>)
           (filter (\<lambda>r. \<exists>i \<in> set txins. txid r = Hash_String env (Hash (Previous i))
                           \<and> index r = Index (Previous i)) (utxos w)) deleted"
proof -
  let ?txids = "map (\<lambda>i. Hash_String env (Hash (Previous i))) txins"
  let ?indexes = "map (\<lambda>i. Index (Previous i)) txins"
  from assms have w': "w' = w\<lparr>calls := calls w @ [Query_delete ?txids ?indexes],
       utxos := filter (\<lambda>r. \<not> in_outpoints ?txids ?indexes r) (utxos w)\<rparr>"
    and sc: "scan_deleted env flt 0 (filter (in_outpoints ?txids ?indexes) (utxos w)) [] = Ok deleted"
    by (auto simp add: deleteUTXOs_def Let_def split: option.splits)
  from w' show "utxos w' = filter (\<lambda>r. \<not> (\<exists>i \<in> set txins. txid r = Hash_String env (Hash (Previous i))
                           \<and> index r = Index (Previous i))) (utxos w)"
    by (simp add: in_outpoints_inputs)
  from scan_deleted_Ok [OF sc]
  show "list_all2 (\<lambda>r d. ParseHash env (txid r) = Inr (Hash (Outpoint d)) \<and>
                    d = zero_UTXO\<lparr>AccountID := account_id r, AssetID := asset_id r,
                          Outpoint := \<lparr>Hash = Hash (Outpoint d), Index = index r\<rparr>\<rparr>)
           (filter (\<lambda>r. \<exists>i \<in> set txins. txid r = Hash_String env (Hash (Previous i))
                           \<and> index r = Index (Previous i)) (utxos w)) deleted"
    by (simp add: in_outpoints_inputs_fun)
qed

lemma ApplyTx_Ok:
  assumes "ApplyTx env flt ctx now tx outRecs w = (Ok (deleted, inserted), w')"
  obtains ins w1 where
    "ctx = InTx"
    "insertUTXOs env flt (Tx_Hash env tx) (Outputs tx) outRecs w = (Ok ins, w1)"
    "WriteActivity env w1 tx (filter (\<lambda>u. ManagerNodeID u \<noteq> []) ins) now = None"
    "inserted = map UTXO (filter (\<lambda>u. ManagerNodeID u \<noteq> []) ins)"
    "deleteUTXOs env flt (Inputs tx)
       (w1\<lparr>calls := calls w1 @
             [Call_WriteActivity tx (filter (\<lambda>u. ManagerNodeID u \<noteq> []) ins) now]\<rparr>)
     = (Ok deleted, w')"
proof -
  from assms have c: "ctx = InTx"
    by (auto simp add: ApplyTx_def Let_def split: if_splits)
  obtain r1 w1 where i: "insertUTXOs env flt (Tx_Hash env tx) (Outputs tx) outRecs w = (r1, w1)"
    by (cases "insertUTXOs env flt (Tx_Hash env tx) (Outputs tx) outRecs w")
  from assms c i obtain ins where r1: "r1 = Ok ins"
    by (cases r1) (auto simp add: ApplyTx_def Let_def)
  let ?l = "filter (\<lambda>u. ManagerNodeID u \<noteq> []) ins"
  from assms c i r1 have a: "WriteActivity env w1 tx ?l now = None"
    by (auto simp add: ApplyTx_def Let_def split: option.splits)
  obtain r3 w3 where d: "deleteUTXOs env flt (Inputs tx)
       (w1\<lparr>calls := calls w1 @ [Call_WriteActivity tx ?l now]\<rparr>) = (r3, w3)"
    by (cases "deleteUTXOs env flt (Inputs tx)
       (w1\<lparr>calls := calls w1 @ [Call_WriteActivity tx ?l now]\<rparr>)")
  from assms c i r1 a d have "r3 = Ok deleted \<and> w3 = w' \<and> inserted = map UTXO ?l"
    by (cases r3) (auto simp add: ApplyTx_def Let_def)
  with that [OF c] i r1 a d show thesis
    by simp
qed



lemma deleteUTXOs_utxos:
  "deleteUTXOs env flt txins w = (res, w') \<Longrightarrow> set (utxos w') \<subseteq> set (utxos w)"
  by (auto simp add: deleteUTXOs_def Let_def split: option.splits)

lemma ApplyTx_cases:
  assumes "ApplyTx env flt InTx now tx outRecs w = (res, w')"
  obtains
    (insert_failed) e where
      "insertUTXOs env flt (Tx_Hash env tx) (Outputs tx) outRecs w = (Err e, w')"
      "res = Err (Wrap e ''insert'')"
  | (activity_failed) ins w1 e where
      "insertUTXOs env flt (Tx_Hash env tx) (Outputs tx) outRecs w = (Ok ins, w1)"
      "WriteActivity env w1 tx (filter (\<lambda>u. ManagerNodeID u \<noteq> []) ins) now = Some e"
      "res = Err (Wrap e ''creating activity items'')"
      "w' = w1\<lparr>calls := calls w1 @
                [Call_WriteActivity tx (filter (\<lambda>u. ManagerNodeID u \<noteq> []) ins) now]\<rparr>"
  | (delete_failed) ins w1 e where
      "insertUTXOs env flt (Tx_Hash env tx) (Outputs tx) outRecs w = (Ok ins, w1)"
      "WriteActivity env w1 tx (filter (\<lambda>u. ManagerNodeID u \<noteq> []) ins) now = None"
      "deleteUTXOs env flt (Inputs tx)
         (w1\<lparr>calls := calls w1 @
                [Call_WriteActivity tx (filter (\<lambda>u. ManagerNodeID u \<noteq> []) ins) now]\<rparr>)
       = (Err e, w')"
      "res = Err (Wrap e ''delete'')"
  | (applied) ins w1 deleted where
      "insertUTXOs env flt (Tx_Hash env tx) (Outputs tx) outRecs w = (Ok ins, w1)"
      "WriteActivity env w1 tx (filter (\<lambda>u. ManagerNodeID u \<noteq> []) ins) now = None"
      "deleteUTXOs env flt (Inputs tx)
         (w1\<lparr>calls := calls w1 @
                [Call_WriteActivity tx (filter (\<lambda>u. ManagerNodeID u \<noteq> []) ins) now]\<rparr>)
       = (Ok deleted, w')"
      "res = Ok (deleted, map UTXO (filter (\<lambda>u. ManagerNodeID u \<noteq> []) ins))"
proof -
  obtain r1 w1 where i: "insertUTXOs env flt (Tx_Hash env tx) (Outputs tx) outRecs w = (r1, w1)"
    by (cases "insertUTXOs env flt (Tx_Hash env tx) (Outputs tx) outRecs w")
  with insertUTXOs_no_Panic [of env flt "Tx_Hash env tx" "Outputs tx" outRecs w]
  have np1: "r1 \<noteq> Panic"
    by simp
  show thesis
  proof (cases r1)
    case Panic
    with np1 show ?thesis by simp
  next
    case (Err e)
    with assms i have "res = Err (Wrap e ''insert'')" "w' = w1"
      by (simp_all add: ApplyTx_def)
    with i Err show ?thesis
      by (simp add: insert_failed)
  next
    case (Ok ins)
    let ?l = "filter (\<lambda>u. ManagerNodeID u \<noteq> []) ins"
    let ?w2 = "w1\<lparr>calls := calls w1 @ [Call_WriteActivity tx ?l now]\<rparr>"
    show ?thesis
    proof (cases "WriteActivity env w1 tx ?l now")
      case (Some e)
      with assms i Ok have "res = Err (Wrap e ''creating activity items'')" "w' = ?w2"
        by (simp_all add: ApplyTx_def Let_def)
      with i Ok Some show ?thesis
        by (simp add: activity_failed)
    next
      case None
      obtain r3 w3 where d: "deleteUTXOs env flt (Inputs tx) ?w2 = (r3, w3)"
        by (cases "deleteUTXOs env flt (Inputs tx) ?w2")
      with deleteUTXOs_no_Panic [of env flt "Inputs tx" ?w2] have np3: "r3 \<noteq> Panic"
        by simp
      show ?thesis
      proof (cases r3)
        case Panic
        with np3 show ?thesis by simp
      next
        case (Err e)
        with assms i Ok None d have "res = Err (Wrap e ''delete'')" "w' = w3"
          by (simp_all add: ApplyTx_def Let_def)
        with i Ok None d Err show ?thesis
          by (simp add: delete_failed)
      next
        case ok: (Ok deleted)
        with assms i Ok None d have "res = Ok (deleted, map UTXO ?l)" "w' = w3"
          by (simp_all add: ApplyTx_def Let_def)
        with i Ok None d ok show ?thesis
          by (simp add: applied)
      qed
    qed
  qed
qed

section \<open>The claims about \<open>ApplyTx\<close> and \<open>SaveReservations\<close>\<close>

text \<open>
  C7. Called with a database handle that is not a transaction, \<open>ApplyTx\<close> panics: the
  outcome is the panic, not a returned error, and nothing has been done to the state.
  Inside a transaction it never panics.
\<close>

theorem ApplyTx_outside_transaction:
  "ApplyTx env flt PlainDB now tx outRecs w = (Panic, w)
   \<and> fst (ApplyTx env flt InTx now tx outRecs w) \<noteq> Panic"
proof
  show "ApplyTx env flt PlainDB now tx outRecs w = (Panic, w)"
    by (simp add: ApplyTx_def)
next
  obtain res w' where a: "ApplyTx env flt InTx now tx outRecs w = (res, w')"
    by (cases "ApplyTx env flt InTx now tx outRecs w")
  then have "res \<noteq> Panic"
    by (cases rule: ApplyTx_cases) simp_all
  with a show "fst (ApplyTx env flt InTx now tx outRecs w) \<noteq> Panic"
    by simp
qed

text \<open>
  C5. When the outputs and the receiver hints differ in length, \<open>ApplyTx\<close> (inside a
  transaction) returns the length-mismatch error of \<open>insertUTXOs\<close>, wrapped, and the
  state is as before the call: no statement was sent, no activity recorded, the tables
  are unchanged. Whatever the handle, the call leaves the state unchanged.
\<close>

theorem ApplyTx_length_mismatch:
  assumes "length (Outputs tx) \<noteq> length outRecs"
  shows "ApplyTx env flt InTx now tx outRecs w
           = (Err (Wrap (New ''length mismatch'') ''insert''), w)
         \<and> insertUTXOs env flt hash (Outputs tx) outRecs w = (Err (New ''length mismatch''), w)
         \<and> snd (ApplyTx env flt ctx now tx outRecs w) = w"
  using assms by (cases ctx) (simp_all add: ApplyTx_def insertUTXOs_mismatch)

theorem ApplyTx_length_mismatch_witness:
  "length (Outputs ex_tx) \<noteq> length [None :: Receiver option]
   \<and> ApplyTx ex_env ex_faults InTx 100 ex_tx [None] ex_world
       = (Err (Wrap (New ''length mismatch'') ''insert''), ex_world)"
  using ApplyTx_length_mismatch [of ex_tx "[None]" ex_env ex_faults 100 ex_world]
  by (simp add: ex_tx_def)

text \<open>
  C8. When the update statement succeeds, \<open>SaveReservations\<close> returns no error, sends
  one statement with the parallel arrays of hash strings and indexes, keeps the number
  and order of the rows, and changes exactly the rows whose \<open>(txid, index)\<close> is the
  outpoint of one of the given UTXOs, and of those only \<open>reserved_until\<close>, which
  becomes the expiry; an outpoint without a row changes nothing and is no error. When the
  statement fails, its error is returned wrapped and the tables are unchanged.
\<close>

theorem SaveReservations_effect:
  "(exec_err flt UpdateReservedUntil = None \<longrightarrow>
      (\<exists>w'. SaveReservations env flt us exp w = (None, w')
         \<and> calls w' = calls w @
               [Exec_update (map (\<lambda>u. Hash_String env (Hash (Outpoint u))) us)
                            (map (\<lambda>u. Index (Outpoint u)) us) exp]
         \<and> length (utxos w') = length (utxos w)
         \<and> addresses w' = addresses w
         \<and> (\<forall>i < length (utxos w).
               utxos w' ! i =
                 (if \<exists>u \<in> set us. txid (utxos w ! i) = Hash_String env (Hash (Outpoint u))
                                  \<and> index (utxos w ! i) = Index (Outpoint u)
                  then (utxos w ! i)\<lparr>reserved_until := Some exp\<rparr>
                  else utxos w ! i))))
   \<and> (\<forall>e. exec_err flt UpdateReservedUntil = Some e \<longrightarrow>
         (\<exists>w'. SaveReservations env flt us exp w
                  = (Some (Wrap e ''update utxo reserve expiration''), w')
            \<and> utxos w' = utxos w \<and> addresses w' = addresses w))"
  by (simp add: SaveReservations_def Let_def in_outpoints_utxos)

theorem SaveReservations_effect_witness:
  "exec_err ex_faults UpdateReservedUntil = None
   \<and> (\<exists>w'. SaveReservations ex_env ex_faults
              [zero_UTXO\<lparr>Outpoint := \<lparr>Hash = [3], Index = 1\<rparr>\<rparr>,
               zero_UTXO\<lparr>Outpoint := \<lparr>Hash = [3], Index = 9\<rparr>\<rparr>] 42 ex_world = (None, w')
          \<and> length (utxos w') = 2
          \<and> utxos w' ! 0 = utxos ex_world ! 0
          \<and> utxos w' ! 1 = (utxos ex_world ! 1)\<lparr>reserved_until := Some 42\<rparr>)"
proof -
  let ?us = "[zero_UTXO\<lparr>Outpoint := \<lparr>Hash = [3], Index = 1\<rparr>\<rparr>,
              zero_UTXO\<lparr>Outpoint := \<lparr>Hash = [3], Index = 9\<rparr>\<rparr>]"
  have h: "exec_err ex_faults UpdateReservedUntil = None"
    by (simp add: ex_faults_def)
  with SaveReservations_effect [of ex_faults ex_env ?us 42 ex_world]
  obtain w' where s: "SaveReservations ex_env ex_faults ?us 42 ex_world = (None, w')"
    and l: "length (utxos w') = length (utxos ex_world)"
    and n: "\<forall>i < length (utxos ex_world).
               utxos w' ! i =
                 (if \<exists>u \<in> set ?us. txid (utxos ex_world ! i) = Hash_String ex_env (Hash (Outpoint u))
                                  \<and> index (utxos ex_world ! i) = Index (Outpoint u)
                  then (utxos ex_world ! i)\<lparr>reserved_until := Some 42\<rparr>
                  else utxos ex_world ! i)"
    by blast
  have len: "length (utxos ex_world) = 2"
    by (simp add: ex_world_def)
  from n [rule_format, of 0] have r0: "utxos w' ! 0 = utxos ex_world ! 0"
    by (simp add: ex_world_def ex_env_def ex_string_def zero_UTXO_def)
  from n [rule_format, of 1]
  have r1: "utxos w' ! 1 = (utxos ex_world ! 1)\<lparr>reserved_until := Some 42\<rparr>"
    by (simp add: ex_world_def ex_env_def ex_string_def zero_UTXO_def)
  from h s l len r0 r1 show ?thesis
    by simp
qed

section \<open>The claims about the steps of \<open>ApplyTx\<close>\<close>

lemma ex_run:
  "fst (ApplyTx ex_env ex_faults InTx 100 ex_tx ex_recs ex_world)
     = Ok (ex_deleted, map UTXO ex_inserted)"
  by code_simp

lemma ex_insert:
  "fst (insertUTXOs ex_env ex_faults (Tx_Hash ex_env ex_tx) (Outputs ex_tx) ex_recs ex_world)
     = Ok ex_resolved"
  by code_simp

lemma ex_run_no_activity:
  "fst (ApplyTx ex_env_no_activity ex_faults InTx 100 ex_tx ex_recs ex_world)
     = Err (Wrap (New ''no activity'') ''creating activity items'')"
  by code_simp

lemma insertUTXOs_Ok_world:
  assumes "insertUTXOs env flt hash txouts recs w = (Ok ins, w')"
  shows "\<exists>a outs.
           w' = w\<lparr>calls := calls w @ [Query_addresses a, Exec_insert (Hash_String env hash) outs],
                  utxos := utxos w @ insert_rows (Hash_String env hash) outs\<rparr>
           \<and> utxoSet_loop 0 ins
                \<lparr>us_txid = Hash_String env hash, us_index = [], us_assetID = [], us_amount = [],
                 us_addr = [], us_accountID = [], us_managerNodeID = [], us_aIndex = []\<rparr>
               = Ok outs"
proof (rule insertUTXOs_Ok [OF assms])
  fix ins0 outs
  assume "utxoSet_loop 0 ins
             \<lparr>us_txid = Hash_String env hash, us_index = [], us_assetID = [], us_amount = [],
              us_addr = [], us_accountID = [], us_managerNodeID = [], us_aIndex = []\<rparr> = Ok outs"
    and "w' = w\<lparr>calls := calls w @
               [Query_addresses (map Addr (filter (\<lambda>u. AccountID (UTXO u) = []) ins0)),
                Exec_insert (Hash_String env hash) outs],
             utxos := utxos w @ insert_rows (Hash_String env hash) outs\<rparr>"
  then show ?thesis
    by blast
qed

text \<open>
  C3. Inside a transaction, the calls that \<open>ApplyTx\<close> makes are, in this order, the
  address query and the insert statement of the insertion step, the activity recording
  with the locally owned outputs, and the delete statement; a run makes an initial part
  of this sequence and stops at the first failure. If the insertion step fails, the error
  is returned wrapped as \<open>insert\<close>, neither the activity recorder nor the delete is
  called, and the table is unchanged. If the activity recording fails, its error is
  returned wrapped as \<open>creating activity items\<close>, no delete is made and the table is the
  one the insertion left. Only when both succeed is the delete statement sent: if
  \<open>deleteUTXOs\<close> fails, its error is returned wrapped as \<open>delete\<close>, and only if it
  succeeds is the result its deleted outputs with the inserted ones.
\<close>

theorem ApplyTx_steps_in_order:
  assumes "ApplyTx env flt InTx now tx outRecs w = (res, w')"
  shows "\<exists>cs. calls w' = calls w @ cs \<and>
    ((\<exists>e. fst (insertUTXOs env flt (Tx_Hash env tx) (Outputs tx) outRecs w) = Err e
          \<and> res = Err (Wrap e ''insert'')
          \<and> (cs = [] \<or> (\<exists>a. cs = [Query_addresses a])
               \<or> (\<exists>a t outs. cs = [Query_addresses a, Exec_insert t outs]))
          \<and> utxos w' = utxos w)
     \<or> (\<exists>ins w1 a t outs.
          insertUTXOs env flt (Tx_Hash env tx) (Outputs tx) outRecs w = (Ok ins, w1)
          \<and> ((\<exists>e. WriteActivity env w1 tx (filter (\<lambda>u. ManagerNodeID u \<noteq> []) ins) now = Some e
                 \<and> res = Err (Wrap e ''creating activity items'')
                 \<and> cs = [Query_addresses a, Exec_insert t outs,
                         Call_WriteActivity tx (filter (\<lambda>u. ManagerNodeID u \<noteq> []) ins) now]
                 \<and> utxos w' = utxos w1)
             \<or> (WriteActivity env w1 tx (filter (\<lambda>u. ManagerNodeID u \<noteq> []) ins) now = None
                 \<and> (\<exists>d1 d2. cs = [Query_addresses a, Exec_insert t outs,
                         Call_WriteActivity tx (filter (\<lambda>u. ManagerNodeID u \<noteq> []) ins) now,
                         Query_delete d1 d2])
                 \<and> ((\<exists>e. deleteUTXOs env flt (Inputs tx)
                             (w1\<lparr>calls := calls w1 @
                                   [Call_WriteActivity tx
                                      (filter (\<lambda>u. ManagerNodeID u \<noteq> []) ins) now]\<rparr>)
                           = (Err e, w')
                         \<and> res = Err (Wrap e ''delete''))
                      \<or> (\<exists>deleted. deleteUTXOs env flt (Inputs tx)
                             (w1\<lparr>calls := calls w1 @
                                   [Call_WriteActivity tx
                                      (filter (\<lambda>u. ManagerNodeID u \<noteq> []) ins) now]\<rparr>)
                           = (Ok deleted, w')
                         \<and> res = Ok (deleted,
                              map UTXO (filter (\<lambda>u. ManagerNodeID u \<noteq> []) ins))))))))"
  using assms
proof (cases rule: ApplyTx_cases)
  case (insert_failed e)
  from insertUTXOs_Err [OF insert_failed(1)] insert_failed show ?thesis
    by auto
next
  case (activity_failed ins w1 e)
  from insertUTXOs_Ok_world [OF activity_failed(1)] obtain a outs where
    "w1 = w\<lparr>calls := calls w @
               [Query_addresses a, Exec_insert (Hash_String env (Tx_Hash env tx)) outs],
             utxos := utxos w @ insert_rows (Hash_String env (Tx_Hash env tx)) outs\<rparr>"
    by blast
  with activity_failed show ?thesis
    by auto
next
  case (delete_failed ins w1 e)
  from insertUTXOs_Ok_world [OF delete_failed(1)] obtain a outs where
    "w1 = w\<lparr>calls := calls w @
               [Query_addresses a, Exec_insert (Hash_String env (Tx_Hash env tx)) outs],
             utxos := utxos w @ insert_rows (Hash_String env (Tx_Hash env tx)) outs\<rparr>"
    by blast
  with delete_failed deleteUTXOs_calls [OF delete_failed(3)] show ?thesis
    by auto
next
  case (applied ins w1 deleted)
  from insertUTXOs_Ok_world [OF applied(1)] obtain a outs where
    "w1 = w\<lparr>calls := calls w @
               [Query_addresses a, Exec_insert (Hash_String env (Tx_Hash env tx)) outs],
             utxos := utxos w @ insert_rows (Hash_String env (Tx_Hash env tx)) outs\<rparr>"
    by blast
  with applied deleteUTXOs_calls [OF applied(3)] show ?thesis
    by auto
qed


lemma apply_rec_frame:
  "Addr (apply_rec rc u) = Addr u"
  "AssetID (UTXO (apply_rec rc u)) = AssetID (UTXO u)"
  "Amount (UTXO (apply_rec rc u)) = Amount (UTXO u)"
  "Outpoint (UTXO (apply_rec rc u)) = Outpoint (UTXO u)"
  "ResvExpires (UTXO (apply_rec rc u)) = ResvExpires (UTXO u)"
  by (simp_all add: apply_rec_def split: option.splits)

lemma insertUTXOs_Ok_outputs:
  assumes "insertUTXOs env flt hash txouts recs w = (Ok ins, w')"
  shows "length ins = length txouts"
    and "i < length txouts \<Longrightarrow>
           PkScriptAddr env (txo_Script (txouts ! i)) = Inr (Addr (ins ! i))
           \<and> Outpoint (UTXO (ins ! i)) = \<lparr>Hash = hash, Index = of_nat i\<rparr>
           \<and> AssetID (UTXO (ins ! i)) = AssetID_String env (txo_AssetID (txouts ! i))
           \<and> Amount (UTXO (ins ! i)) = txo_Value (txouts ! i)"
proof -
  from assms obtain ins0 where
    i0: "initAddrInfoFromRecs_loop env hash recs 0 txouts = Ok ins0" and
    ins: "ins = map (fold fill_from_row
            (filter (\<lambda>r. address r \<in> Addr ` {u \<in> set ins0. AccountID (UTXO u) = []})
               (addresses w))) ins0"
    unfolding initAddrInfoFromRecs_def [symmetric]
    by (rule insertUTXOs_Ok)
  note l = initAddrInfoFromRecs_loop_Ok [OF i0]
  from l ins show "length ins = length txouts"
    by simp
  show "PkScriptAddr env (txo_Script (txouts ! i)) = Inr (Addr (ins ! i))
           \<and> Outpoint (UTXO (ins ! i)) = \<lparr>Hash = hash, Index = of_nat i\<rparr>
           \<and> AssetID (UTXO (ins ! i)) = AssetID_String env (txo_AssetID (txouts ! i))
           \<and> Amount (UTXO (ins ! i)) = txo_Value (txouts ! i)" if "i < length txouts"
  proof -
    from l that have a: "PkScriptAddr env (txo_Script (txouts ! i)) = Inr (Addr (ins0 ! i))"
      and b: "ins0 ! i = apply_rec (recs ! i) (new_appUTXO env hash i (txouts ! i) (Addr (ins0 ! i)))"
      by simp_all
    have c: "Outpoint (UTXO (ins0 ! i)) = \<lparr>Hash = hash, Index = of_nat i\<rparr>"
      "AssetID (UTXO (ins0 ! i)) = AssetID_String env (txo_AssetID (txouts ! i))"
      "Amount (UTXO (ins0 ! i)) = txo_Value (txouts ! i)"
      by (subst b, simp add: apply_rec_frame new_appUTXO_def)+
    from l that ins a c show ?thesis
      by (simp add: fold_fill_frame)
  qed
qed

lemma insertUTXOs_Ok_rows:
  assumes "insertUTXOs env flt hash txouts recs w = (Ok ins, w')"
  shows "\<exists>rows a outs.
           utxos w' = utxos w @ rows \<and> addresses w' = addresses w
         \<and> calls w' = calls w @ [Query_addresses a, Exec_insert (Hash_String env hash) outs]
         \<and> rows = insert_rows (Hash_String env hash) outs
         \<and> length rows = length txouts
         \<and> (\<forall>i < length txouts.
               rows ! i =
                 \<lparr>txid = Hash_String env hash, index = of_nat i,
                  asset_id = AssetID_String env (txo_AssetID (txouts ! i)),
                  amount = txo_Value (txouts ! i),
                  account_id = AccountID (UTXO (ins ! i)),
                  manager_node_id = ManagerNodeID (ins ! i),
                  addr_index = push_bit 31 (ucast (fst (AddrIndex (UTXO (ins ! i))))) OR
                               ucast (snd (AddrIndex (UTXO (ins ! i))) AND mask 31),
                  reserved_until = None\<rparr>)"
proof -
  from insertUTXOs_Ok_world [OF assms] obtain a outs where
    w': "w' = w\<lparr>calls := calls w @ [Query_addresses a, Exec_insert (Hash_String env hash) outs],
                  utxos := utxos w @ insert_rows (Hash_String env hash) outs\<rparr>" and
    u: "utxoSet_loop 0 ins
                \<lparr>us_txid = Hash_String env hash, us_index = [], us_assetID = [], us_amount = [],
                 us_addr = [], us_accountID = [], us_managerNodeID = [], us_aIndex = []\<rparr>
               = Ok outs"
    by blast
  note o = insertUTXOs_Ok_outputs [OF assms]
  note r = inserted_rows [OF u, where t = "Hash_String env hash"]
  let ?rows = "insert_rows (Hash_String env hash) outs"
  have "utxos w' = utxos w @ ?rows" "addresses w' = addresses w"
    "calls w' = calls w @ [Query_addresses a, Exec_insert (Hash_String env hash) outs]"
    by (simp_all add: w')
  moreover have "length ?rows = length txouts"
    by (simp add: r(1) o(1))
  moreover have "\<forall>i < length txouts.
               ?rows ! i =
                 \<lparr>txid = Hash_String env hash, index = of_nat i,
                  asset_id = AssetID_String env (txo_AssetID (txouts ! i)),
                  amount = txo_Value (txouts ! i),
                  account_id = AccountID (UTXO (ins ! i)),
                  manager_node_id = ManagerNodeID (ins ! i),
                  addr_index = push_bit 31 (ucast (fst (AddrIndex (UTXO (ins ! i))))) OR
                               ucast (snd (AddrIndex (UTXO (ins ! i))) AND mask 31),
                  reserved_until = None\<rparr>"
    using o by (simp add: r(2))
  ultimately show ?thesis
    by blast
qed


lemma list_all2_set2:
  "list_all2 P xs ys \<Longrightarrow> y \<in> set ys \<Longrightarrow> \<exists>x \<in> set xs. P x y"
  by (induction rule: list_all2_induct) auto

text \<open>
  C1. When \<open>ApplyTx\<close> succeeds, there is one resolved record for every output of the
  transaction, at the outpoint of that output; \<open>inserted\<close> is exactly the records whose
  manager node is not empty, in order, and the activity recorder was called once, with
  exactly these records. Every resolved record, with or without manager node, has its
  row in the table after the insertion step, and the table that \<open>ApplyTx\<close> leaves is
  that table without the rows the inputs name: unless an input names the transaction
  itself, every output, also one without manager node, has its row in the final table.
\<close>

theorem ApplyTx_inserted:
  assumes "ApplyTx env flt ctx now tx outRecs w = (Ok (deleted, inserted), w')"
  shows "\<exists>ins w1 rows a outs d1 d2.
       insertUTXOs env flt (Tx_Hash env tx) (Outputs tx) outRecs w = (Ok ins, w1)
     \<and> length ins = length (Outputs tx)
     \<and> (\<forall>i < length ins.
           Outpoint (UTXO (ins ! i)) = \<lparr>Hash = Tx_Hash env tx, Index = of_nat i\<rparr>)
     \<and> inserted = map UTXO (filter (\<lambda>u. ManagerNodeID u \<noteq> []) ins)
     \<and> calls w' = calls w @
           [Query_addresses a, Exec_insert (Hash_String env (Tx_Hash env tx)) outs,
            Call_WriteActivity tx (filter (\<lambda>u. ManagerNodeID u \<noteq> []) ins) now,
            Query_delete d1 d2]
     \<and> utxos w1 = utxos w @ rows
     \<and> length rows = length ins
     \<and> (\<forall>i < length ins.
           txid (rows ! i) = Hash_String env (Tx_Hash env tx)
         \<and> index (rows ! i) = of_nat i
         \<and> account_id (rows ! i) = AccountID (UTXO (ins ! i))
         \<and> manager_node_id (rows ! i) = ManagerNodeID (ins ! i))
     \<and> utxos w' =
         filter (\<lambda>r. \<not> (\<exists>i \<in> set (Inputs tx). txid r = Hash_String env (Hash (Previous i))
                                           \<and> index r = Index (Previous i)))
                (utxos w @ rows)
     \<and> ((\<forall>j \<in> set (Inputs tx).
            Hash_String env (Hash (Previous j)) \<noteq> Hash_String env (Tx_Hash env tx))
          \<longrightarrow> (\<forall>i < length ins. rows ! i \<in> set (utxos w')))"
  using assms
proof (cases rule: ApplyTx_Ok)
  case (1 ins w1)
  let ?l = "filter (\<lambda>u. ManagerNodeID u \<noteq> []) ins"
  note o = insertUTXOs_Ok_outputs [OF 1(2)]
  from insertUTXOs_Ok_rows [OF 1(2)] obtain rows a outs where
    r: "utxos w1 = utxos w @ rows"
      "calls w1 = calls w @ [Query_addresses a, Exec_insert (Hash_String env (Tx_Hash env tx)) outs]"
      "length rows = length (Outputs tx)"
      "\<forall>i < length (Outputs tx).
               rows ! i =
                 \<lparr>txid = Hash_String env (Tx_Hash env tx), index = of_nat i,
                  asset_id = AssetID_String env (txo_AssetID (Outputs tx ! i)),
                  amount = txo_Value (Outputs tx ! i),
                  account_id = AccountID (UTXO (ins ! i)),
                  manager_node_id = ManagerNodeID (ins ! i),
                  addr_index = push_bit 31 (ucast (fst (AddrIndex (UTXO (ins ! i))))) OR
                               ucast (snd (AddrIndex (UTXO (ins ! i))) AND mask 31),
                  reserved_until = None\<rparr>"
    by blast
  from deleteUTXOs_calls [OF 1(5)] r(2)
  have c: "calls w' = calls w @
           [Query_addresses a, Exec_insert (Hash_String env (Tx_Hash env tx)) outs,
            Call_WriteActivity tx ?l now,
            Query_delete (map (\<lambda>i. Hash_String env (Hash (Previous i))) (Inputs tx))
                         (map (\<lambda>i. Index (Previous i)) (Inputs tx))]"
    by simp
  have "\<forall>i < length ins. Outpoint (UTXO (ins ! i)) = \<lparr>Hash = Tx_Hash env tx, Index = of_nat i\<rparr>"
    using o by simp
  moreover have "\<forall>i < length ins.
           txid (rows ! i) = Hash_String env (Tx_Hash env tx)
         \<and> index (rows ! i) = of_nat i
         \<and> account_id (rows ! i) = AccountID (UTXO (ins ! i))
         \<and> manager_node_id (rows ! i) = ManagerNodeID (ins ! i)"
    using o(1) r(4) by simp
  moreover from r(3) o(1) have lr: "length rows = length ins"
    by simp
  moreover from deleteUTXOs_Ok(1) [OF 1(5)] r(1)
  have t: "utxos w' =
         filter (\<lambda>r. \<not> (\<exists>i \<in> set (Inputs tx). txid r = Hash_String env (Hash (Previous i))
                                           \<and> index r = Index (Previous i)))
                (utxos w @ rows)"
    by simp
  moreover have "(\<forall>j \<in> set (Inputs tx).
            Hash_String env (Hash (Previous j)) \<noteq> Hash_String env (Tx_Hash env tx))
          \<longrightarrow> (\<forall>i < length ins. rows ! i \<in> set (utxos w'))"
  proof (intro impI allI)
    fix i
    assume n: "\<forall>j \<in> set (Inputs tx).
            Hash_String env (Hash (Previous j)) \<noteq> Hash_String env (Tx_Hash env tx)"
      and i: "i < length ins"
    from i lr have "rows ! i \<in> set rows"
      by simp
    moreover from i o(1) r(4) have "txid (rows ! i) = Hash_String env (Tx_Hash env tx)"
      by simp
    ultimately show "rows ! i \<in> set (utxos w')"
      unfolding t using n by auto
  qed
  ultimately show ?thesis
    using 1(2) 1(4) o(1) c r(1) by blast
qed

text \<open>
  C2. When \<open>ApplyTx\<close> succeeds, the table after the call is the table after the
  insertion (the old rows followed by the rows of this transaction) without the rows
  whose \<open>(txid, index)\<close> is the outpoint of an input, whoever owns them, and \<open>deleted\<close>
  lists exactly these removed rows, in order, each with its account, asset and outpoint.
  An input outpoint that had no row before the call, and is not an output of the
  transaction itself, is not among the outpoints of \<open>deleted\<close> (supposing that
  \<open>ParseHash\<close> reads back the hash strings of the inputs).
\<close>

theorem ApplyTx_deleted:
  assumes "ApplyTx env flt ctx now tx outRecs w = (Ok (deleted, inserted), w')"
  shows "\<exists>rows.
       length rows = length (Outputs tx)
     \<and> (\<forall>r \<in> set rows. txid r = Hash_String env (Tx_Hash env tx))
     \<and> utxos w' =
         filter (\<lambda>r. \<not> (\<exists>i \<in> set (Inputs tx). txid r = Hash_String env (Hash (Previous i))
                                           \<and> index r = Index (Previous i)))
                (utxos w @ rows)
     \<and> list_all2 (\<lambda>r d. AccountID d = account_id r \<and> AssetID d = asset_id r
                       \<and> ParseHash env (txid r) = Inr (Hash (Outpoint d))
                       \<and> Index (Outpoint d) = index r)
         (filter (\<lambda>r. \<exists>i \<in> set (Inputs tx). txid r = Hash_String env (Hash (Previous i))
                                         \<and> index r = Index (Previous i))
                 (utxos w @ rows))
         deleted
     \<and> (\<forall>i \<in> set (Inputs tx).
           (\<forall>j \<in> set (Inputs tx).
               ParseHash env (Hash_String env (Hash (Previous j))) = Inr (Hash (Previous j)))
         \<and> Hash_String env (Hash (Previous i)) \<noteq> Hash_String env (Tx_Hash env tx)
         \<and> (\<forall>r \<in> set (utxos w). txid r = Hash_String env (Hash (Previous i))
                                  \<longrightarrow> index r \<noteq> Index (Previous i))
         \<longrightarrow> (\<forall>d \<in> set deleted. Outpoint d \<noteq> Previous i))"
  using assms
proof (cases rule: ApplyTx_Ok)
  case (1 ins w1)
  let ?l = "filter (\<lambda>u. ManagerNodeID u \<noteq> []) ins"
  let ?w2 = "w1\<lparr>calls := calls w1 @ [Call_WriteActivity tx ?l now]\<rparr>"
  let ?spent = "\<lambda>r. \<exists>i \<in> set (Inputs tx). txid r = Hash_String env (Hash (Previous i))
                                         \<and> index r = Index (Previous i)"
  let ?rel = "\<lambda>r d. AccountID d = account_id r \<and> AssetID d = asset_id r
                       \<and> ParseHash env (txid r) = Inr (Hash (Outpoint d))
                       \<and> Index (Outpoint d) = index r"
  from insertUTXOs_Ok_rows [OF 1(2)] obtain rows where
    r: "utxos w1 = utxos w @ rows" "length rows = length (Outputs tx)"
      "\<forall>i < length (Outputs tx).
               rows ! i =
                 \<lparr>txid = Hash_String env (Tx_Hash env tx), index = of_nat i,
                  asset_id = AssetID_String env (txo_AssetID (Outputs tx ! i)),
                  amount = txo_Value (Outputs tx ! i),
                  account_id = AccountID (UTXO (ins ! i)),
                  manager_node_id = ManagerNodeID (ins ! i),
                  addr_index = push_bit 31 (ucast (fst (AddrIndex (UTXO (ins ! i))))) OR
                               ucast (snd (AddrIndex (UTXO (ins ! i))) AND mask 31),
                  reserved_until = None\<rparr>"
    by blast
  have own: "\<forall>r \<in> set rows. txid r = Hash_String env (Tx_Hash env tx)"
  proof
    fix x assume "x \<in> set rows"
    then obtain i where "i < length rows" "x = rows ! i"
      by (auto simp add: in_set_conv_nth)
    with r(2) r(3) show "txid x = Hash_String env (Tx_Hash env tx)"
      by simp
  qed
  from deleteUTXOs_Ok(1) [OF 1(5)] r(1)
  have t: "utxos w' = filter (\<lambda>r. \<not> ?spent r) (utxos w @ rows)"
    by simp
  from deleteUTXOs_Ok(2) [OF 1(5)] r(1)
  have "list_all2 (\<lambda>r d. ParseHash env (txid r) = Inr (Hash (Outpoint d)) \<and>
                    d = zero_UTXO\<lparr>AccountID := account_id r, AssetID := asset_id r,
                          Outpoint := \<lparr>Hash = Hash (Outpoint d), Index = index r\<rparr>\<rparr>)
           (filter ?spent (utxos w @ rows)) deleted"
    by simp
  then have d: "list_all2 ?rel (filter ?spent (utxos w @ rows)) deleted"
  proof (rule list_all2_mono)
    fix x y
    assume "ParseHash env (txid x) = Inr (Hash (Outpoint y)) \<and>
            y = zero_UTXO\<lparr>AccountID := account_id x, AssetID := asset_id x,
                   Outpoint := \<lparr>Hash = Hash (Outpoint y), Index = index x\<rparr>\<rparr>"
    then have p: "ParseHash env (txid x) = Inr (Hash (Outpoint y))" and
      y: "y = zero_UTXO\<lparr>AccountID := account_id x, AssetID := asset_id x,
                   Outpoint := \<lparr>Hash = Hash (Outpoint y), Index = index x\<rparr>\<rparr>"
      by simp_all
    have "AccountID y = account_id x" "AssetID y = asset_id x" "Index (Outpoint y) = index x"
      by (subst y, simp)+
    with p show "?rel x y"
      by simp
  qed
  have n: "\<forall>i \<in> set (Inputs tx).
           (\<forall>j \<in> set (Inputs tx).
               ParseHash env (Hash_String env (Hash (Previous j))) = Inr (Hash (Previous j)))
         \<and> Hash_String env (Hash (Previous i)) \<noteq> Hash_String env (Tx_Hash env tx)
         \<and> (\<forall>r \<in> set (utxos w). txid r = Hash_String env (Hash (Previous i))
                                  \<longrightarrow> index r \<noteq> Index (Previous i))
         \<longrightarrow> (\<forall>d \<in> set deleted. Outpoint d \<noteq> Previous i)"
  proof (intro ballI impI)
    fix i x
    assume i: "i \<in> set (Inputs tx)" and x: "x \<in> set deleted"
      and h: "(\<forall>j \<in> set (Inputs tx).
               ParseHash env (Hash_String env (Hash (Previous j))) = Inr (Hash (Previous j)))
         \<and> Hash_String env (Hash (Previous i)) \<noteq> Hash_String env (Tx_Hash env tx)
         \<and> (\<forall>r \<in> set (utxos w). txid r = Hash_String env (Hash (Previous i))
                                  \<longrightarrow> index r \<noteq> Index (Previous i))"
    from list_all2_set2 [OF d x]
    obtain row where row: "row \<in> set (filter ?spent (utxos w @ rows))" "?rel row x"
      by blast
    then obtain j where j: "j \<in> set (Inputs tx)" "txid row = Hash_String env (Hash (Previous j))"
      "index row = Index (Previous j)"
      by auto
    show "Outpoint x \<noteq> Previous i"
    proof
      assume e: "Outpoint x = Previous i"
      from row(2) j(2) h j(1) have "Hash (Previous j) = Hash (Outpoint x)"
        by simp
      with e j(2) have k: "txid row = Hash_String env (Hash (Previous i))"
        by simp
      from row(2) e have k2: "index row = Index (Previous i)"
        by simp
      from row(1) have "row \<in> set (utxos w) \<or> row \<in> set rows"
        by auto
      with k k2 h own show False
        by auto
    qed
  qed
  from r(2) own t d n show ?thesis
    by blast
qed


text \<open>
  C9. Whatever the outcome of \<open>ApplyTx\<close>, a row of the table that was not there before
  the call has \<open>reserved_until\<close> unset, the transaction's hash as \<open>txid\<close> and the
  position of an output as \<open>index\<close>. When the call succeeds, the insertion has added one
  row per output, in order: row \<open>i\<close> has \<open>reserved_until\<close> unset, \<open>index\<close> \<open>i\<close>
  (as a number too, for a transaction of at most \<open>2^32\<close> outputs), and its other six
  columns are the hash string, the asset and amount of output \<open>i\<close>, the resolved
  account and manager node, and the packed address index.
\<close>

theorem ApplyTx_new_rows:
  assumes "ApplyTx env flt ctx now tx outRecs w = (res, w')"
  shows "(\<forall>r \<in> set (utxos w').
            r \<in> set (utxos w)
          \<or> (\<exists>i < length (Outputs tx).
                reserved_until r = None \<and> index r = of_nat i
              \<and> txid r = Hash_String env (Tx_Hash env tx)))
       \<and> (\<forall>deleted inserted. res = Ok (deleted, inserted) \<longrightarrow>
            (\<exists>rows ins w1.
                insertUTXOs env flt (Tx_Hash env tx) (Outputs tx) outRecs w = (Ok ins, w1)
              \<and> utxos w1 = utxos w @ rows
              \<and> length rows = length (Outputs tx)
              \<and> utxos w' =
                  filter (\<lambda>r. \<not> (\<exists>i \<in> set (Inputs tx).
                                    txid r = Hash_String env (Hash (Previous i))
                                  \<and> index r = Index (Previous i)))
                         (utxos w @ rows)
              \<and> (\<forall>i < length (Outputs tx).
                    reserved_until (rows ! i) = None
                  \<and> index (rows ! i) = of_nat i
                  \<and> (length (Outputs tx) \<le> 2 ^ 32 \<longrightarrow> unat (index (rows ! i)) = i)
                  \<and> txid (rows ! i) = Hash_String env (Tx_Hash env tx)
                  \<and> asset_id (rows ! i) = AssetID_String env (txo_AssetID (Outputs tx ! i))
                  \<and> amount (rows ! i) = txo_Value (Outputs tx ! i)
                  \<and> account_id (rows ! i) = AccountID (UTXO (ins ! i))
                  \<and> manager_node_id (rows ! i) = ManagerNodeID (ins ! i)
                  \<and> toKeyIndex [fst (AddrIndex (UTXO (ins ! i))), snd (AddrIndex (UTXO (ins ! i)))]
                      = Ok (addr_index (rows ! i)))))"
proof -
  let ?new = "\<lambda>r. \<exists>i < length (Outputs tx).
                reserved_until r = None \<and> index r = of_nat i
              \<and> txid r = Hash_String env (Tx_Hash env tx)"
  let ?row = "\<lambda>ins i. \<lparr>txid = Hash_String env (Tx_Hash env tx), index = of_nat i,
                  asset_id = AssetID_String env (txo_AssetID (Outputs tx ! i)),
                  amount = txo_Value (Outputs tx ! i),
                  account_id = AccountID (UTXO (ins ! i)),
                  manager_node_id = ManagerNodeID (ins ! i),
                  addr_index = push_bit 31 (ucast (fst (AddrIndex (UTXO (ins ! i))))) OR
                               ucast (snd (AddrIndex (UTXO (ins ! i))) AND mask 31),
                  reserved_until = None\<rparr>"
  have new: "\<forall>r \<in> set (utxos w @ rows). r \<in> set (utxos w) \<or> ?new r"
    if "length rows = length (Outputs tx)" "\<forall>i < length (Outputs tx). rows ! i = ?row ins i"
    for rows ins
  proof
    fix r assume "r \<in> set (utxos w @ rows)"
    then consider "r \<in> set (utxos w)" | i where "i < length rows" "r = rows ! i"
      by (auto simp add: in_set_conv_nth)
    then show "r \<in> set (utxos w) \<or> ?new r"
    proof cases
      case 1
      then show ?thesis by simp
    next
      case 2
      with that have "i < length (Outputs tx)" "r = ?row ins i"
        by simp_all
      then have "i < length (Outputs tx) \<and> reserved_until r = None \<and> index r = of_nat i
              \<and> txid r = Hash_String env (Tx_Hash env tx)"
        by simp
      then show ?thesis by blast
    qed
  qed
  have first: "\<forall>r \<in> set (utxos w'). r \<in> set (utxos w) \<or> ?new r"
  proof (cases ctx)
    case PlainDB
    with assms show ?thesis by (simp add: ApplyTx_def)
  next
    case InTx
    with assms have "ApplyTx env flt InTx now tx outRecs w = (res, w')"
      by simp
    then show ?thesis
    proof (cases rule: ApplyTx_cases)
      case (insert_failed e)
      from insertUTXOs_Err [OF insert_failed(1)] show ?thesis by simp
    next
      case (activity_failed ins w1 e)
      from insertUTXOs_Ok_rows [OF activity_failed(1)] obtain rows where
        "utxos w1 = utxos w @ rows" "length rows = length (Outputs tx)"
        "\<forall>i < length (Outputs tx). rows ! i = ?row ins i"
        by blast
      with new [of rows ins] activity_failed(4) show ?thesis by simp
    next
      case (delete_failed ins w1 e)
      from insertUTXOs_Ok_rows [OF delete_failed(1)] obtain rows where
        "utxos w1 = utxos w @ rows" "length rows = length (Outputs tx)"
        "\<forall>i < length (Outputs tx). rows ! i = ?row ins i"
        by blast
      with new [of rows ins] deleteUTXOs_utxos [OF delete_failed(3)] show ?thesis by auto
    next
      case (applied ins w1 deleted)
      from insertUTXOs_Ok_rows [OF applied(1)] obtain rows where
        "utxos w1 = utxos w @ rows" "length rows = length (Outputs tx)"
        "\<forall>i < length (Outputs tx). rows ! i = ?row ins i"
        by blast
      with new [of rows ins] deleteUTXOs_utxos [OF applied(3)] show ?thesis by auto
    qed
  qed
  have second: "\<exists>rows ins w1.
                insertUTXOs env flt (Tx_Hash env tx) (Outputs tx) outRecs w = (Ok ins, w1)
              \<and> utxos w1 = utxos w @ rows
              \<and> length rows = length (Outputs tx)
              \<and> utxos w' =
                  filter (\<lambda>r. \<not> (\<exists>i \<in> set (Inputs tx).
                                    txid r = Hash_String env (Hash (Previous i))
                                  \<and> index r = Index (Previous i)))
                         (utxos w @ rows)
              \<and> (\<forall>i < length (Outputs tx).
                    reserved_until (rows ! i) = None
                  \<and> index (rows ! i) = of_nat i
                  \<and> (length (Outputs tx) \<le> 2 ^ 32 \<longrightarrow> unat (index (rows ! i)) = i)
                  \<and> txid (rows ! i) = Hash_String env (Tx_Hash env tx)
                  \<and> asset_id (rows ! i) = AssetID_String env (txo_AssetID (Outputs tx ! i))
                  \<and> amount (rows ! i) = txo_Value (Outputs tx ! i)
                  \<and> account_id (rows ! i) = AccountID (UTXO (ins ! i))
                  \<and> manager_node_id (rows ! i) = ManagerNodeID (ins ! i)
                  \<and> toKeyIndex [fst (AddrIndex (UTXO (ins ! i))), snd (AddrIndex (UTXO (ins ! i)))]
                      = Ok (addr_index (rows ! i)))"
    if "res = Ok (deleted, inserted)" for deleted inserted
  proof -
    from assms that have "ApplyTx env flt ctx now tx outRecs w = (Ok (deleted, inserted), w')"
      by simp
    then show ?thesis
    proof (cases rule: ApplyTx_Ok)
      case (1 ins w1)
      from insertUTXOs_Ok_rows [OF 1(2)] obtain rows where
        r: "utxos w1 = utxos w @ rows" "length rows = length (Outputs tx)"
        "\<forall>i < length (Outputs tx). rows ! i = ?row ins i"
        by blast
      from deleteUTXOs_Ok(1) [OF 1(5)] r(1)
      have t: "utxos w' =
                  filter (\<lambda>r. \<not> (\<exists>i \<in> set (Inputs tx).
                                    txid r = Hash_String env (Hash (Previous i))
                                  \<and> index r = Index (Previous i)))
                         (utxos w @ rows)"
        by simp
      have u: "unat (of_nat i :: 32 word) = i"
        if "i < length (Outputs tx)" "length (Outputs tx) \<le> 2 ^ 32" for i
      proof -
        from that have "i < 2 ^ 32"
          by simp
        then show ?thesis
          by (simp add: unat_of_nat)
      qed
      have "\<forall>i < length (Outputs tx).
                    reserved_until (rows ! i) = None
                  \<and> index (rows ! i) = of_nat i
                  \<and> (length (Outputs tx) \<le> 2 ^ 32 \<longrightarrow> unat (index (rows ! i)) = i)
                  \<and> txid (rows ! i) = Hash_String env (Tx_Hash env tx)
                  \<and> asset_id (rows ! i) = AssetID_String env (txo_AssetID (Outputs tx ! i))
                  \<and> amount (rows ! i) = txo_Value (Outputs tx ! i)
                  \<and> account_id (rows ! i) = AccountID (UTXO (ins ! i))
                  \<and> manager_node_id (rows ! i) = ManagerNodeID (ins ! i)
                  \<and> toKeyIndex [fst (AddrIndex (UTXO (ins ! i))), snd (AddrIndex (UTXO (ins ! i)))]
                      = Ok (addr_index (rows ! i))"
        using r(3) u by (simp add: toKeyIndex_pair)
      with 1(2) r(1) r(2) t show ?thesis
        by blast
    qed
  qed
  from first second show ?thesis
    by blast
qed


lemma ex_run_world:
  "ApplyTx ex_env ex_faults InTx 100 ex_tx ex_recs ex_world
     = (Ok (ex_deleted, map UTXO ex_inserted),
        snd (ApplyTx ex_env ex_faults InTx 100 ex_tx ex_recs ex_world))"
  using ex_run by (simp add: prod_eq_iff)

lemma ex_run_no_activity_world:
  "ApplyTx ex_env_no_activity ex_faults InTx 100 ex_tx ex_recs ex_world
     = (Err (Wrap (New ''no activity'') ''creating activity items''),
        snd (ApplyTx ex_env_no_activity ex_faults InTx 100 ex_tx ex_recs ex_world))"
  using ex_run_no_activity by (simp add: prod_eq_iff)

theorem ApplyTx_inserted_witness:
  "\<exists>w' w1 rows.
       ApplyTx ex_env ex_faults InTx 100 ex_tx ex_recs ex_world
         = (Ok (ex_deleted, map UTXO ex_inserted), w')
     \<and> insertUTXOs ex_env ex_faults (Tx_Hash ex_env ex_tx) (Outputs ex_tx) ex_recs ex_world
         = (Ok ex_resolved, w1)
     \<and> length ex_resolved = 3
     \<and> map UTXO ex_inserted = map UTXO (filter (\<lambda>u. ManagerNodeID u \<noteq> []) ex_resolved)
     \<and> ManagerNodeID (ex_resolved ! 2) = []
     \<and> manager_node_id (rows ! 2) = []
     \<and> index (rows ! 2) = 2
     \<and> rows ! 2 \<in> set (utxos w')"
proof -
  let ?w' = "snd (ApplyTx ex_env ex_faults InTx 100 ex_tx ex_recs ex_world)"
  have l: "length (Outputs ex_tx) = 3"
    by (simp add: ex_tx_def)
  have m: "ManagerNodeID (ex_resolved ! 2) = []"
    by (simp add: ex_resolved_def ex_inserted_def)
  have n: "\<forall>j \<in> set (Inputs ex_tx).
            Hash_String ex_env (Hash (Previous j)) \<noteq> Hash_String ex_env (Tx_Hash ex_env ex_tx)"
    by (simp add: ex_tx_def ex_env_def ex_string_def)
  from ApplyTx_inserted [OF ex_run_world]
  show ?thesis
  proof (elim exE conjE)
    fix ins w1 rows
    assume i: "insertUTXOs ex_env ex_faults (Tx_Hash ex_env ex_tx) (Outputs ex_tx) ex_recs
                 ex_world = (Ok ins, w1)"
      and len: "length ins = length (Outputs ex_tx)"
      and ins: "map UTXO ex_inserted = map UTXO (filter (\<lambda>u. ManagerNodeID u \<noteq> []) ins)"
      and r: "\<forall>i < length ins.
           txid (rows ! i) = Hash_String ex_env (Tx_Hash ex_env ex_tx)
         \<and> index (rows ! i) = of_nat i
         \<and> account_id (rows ! i) = AccountID (UTXO (ins ! i))
         \<and> manager_node_id (rows ! i) = ManagerNodeID (ins ! i)"
      and p: "(\<forall>j \<in> set (Inputs ex_tx).
            Hash_String ex_env (Hash (Previous j)) \<noteq> Hash_String ex_env (Tx_Hash ex_env ex_tx))
          \<longrightarrow> (\<forall>i < length ins. rows ! i \<in> set (utxos ?w'))"
    from i ex_insert have e: "ins = ex_resolved"
      by simp
    from r [rule_format, of 2] len l e m
    have f: "manager_node_id (rows ! 2) = []" "index (rows ! 2) = 2"
      by simp_all
    from p n len l have g: "rows ! 2 \<in> set (utxos ?w')"
      by simp
    show ?thesis
    proof (intro exI conjI)
      show "ApplyTx ex_env ex_faults InTx 100 ex_tx ex_recs ex_world
              = (Ok (ex_deleted, map UTXO ex_inserted), ?w')"
        by (rule ex_run_world)
      show "insertUTXOs ex_env ex_faults (Tx_Hash ex_env ex_tx) (Outputs ex_tx) ex_recs
              ex_world = (Ok ex_resolved, w1)"
        using i e by simp
      show "length ex_resolved = 3"
        using len l e by simp
      show "map UTXO ex_inserted
              = map UTXO (filter (\<lambda>u. ManagerNodeID u \<noteq> []) ex_resolved)"
        using ins e by simp
      show "ManagerNodeID (ex_resolved ! 2) = []"
        by (rule m)
      show "manager_node_id (rows ! 2) = []"
        by (rule f(1))
      show "index (rows ! 2) = 2"
        by (rule f(2))
      show "rows ! 2 \<in> set (utxos ?w')"
        by (rule g)
    qed
  qed
qed

theorem ApplyTx_deleted_witness:
  "\<exists>w'. ApplyTx ex_env ex_faults InTx 100 ex_tx ex_recs ex_world
            = (Ok (ex_deleted, map UTXO ex_inserted), w')
     \<and> Inputs ex_tx ! 1 \<in> set (Inputs ex_tx)
     \<and> Hash_String ex_env (Hash (Previous (Inputs ex_tx ! 1)))
          \<noteq> Hash_String ex_env (Tx_Hash ex_env ex_tx)
     \<and> Previous (Inputs ex_tx ! 1) \<notin> Outpoint ` set ex_deleted
     \<and> length ex_deleted = 1"
proof -
  let ?i = "Inputs ex_tx ! 1"
  have i: "?i \<in> set (Inputs ex_tx)"
    by (simp add: ex_tx_def)
  have p: "\<forall>j \<in> set (Inputs ex_tx).
             ParseHash ex_env (Hash_String ex_env (Hash (Previous j))) = Inr (Hash (Previous j))"
    by (simp add: ex_tx_def ex_env_def ex_string_def)
  have h: "Hash_String ex_env (Hash (Previous ?i)) \<noteq> Hash_String ex_env (Tx_Hash ex_env ex_tx)"
    by (simp add: ex_tx_def ex_env_def ex_string_def)
  have a: "\<forall>r \<in> set (utxos ex_world).
             txid r = Hash_String ex_env (Hash (Previous ?i)) \<longrightarrow> index r \<noteq> Index (Previous ?i)"
    by (simp add: ex_tx_def ex_env_def ex_string_def ex_world_def)
  from ApplyTx_deleted [OF ex_run_world] i p h a
  have "\<forall>d \<in> set ex_deleted. Outpoint d \<noteq> Previous ?i"
    by blast
  then have "Previous ?i \<notin> Outpoint ` set ex_deleted"
    by auto
  moreover have "length ex_deleted = 1"
    by (simp add: ex_deleted_def)
  ultimately show ?thesis
    using ex_run_world i h by blast
qed

theorem ApplyTx_steps_in_order_witness:
  "\<exists>w' cs a t outs l.
       ApplyTx ex_env_no_activity ex_faults InTx 100 ex_tx ex_recs ex_world
         = (Err (Wrap (New ''no activity'') ''creating activity items''), w')
     \<and> calls w' = calls ex_world @ cs
     \<and> cs = [Query_addresses a, Exec_insert t outs, Call_WriteActivity ex_tx l 100]"
  using ApplyTx_steps_in_order [OF ex_run_no_activity_world] ex_run_no_activity_world
  by (elim exE conjE disjE) (simp_all, blast)

theorem ApplyTx_new_rows_witness:
  "\<exists>w' rows.
       ApplyTx ex_env ex_faults InTx 100 ex_tx ex_recs ex_world
         = (Ok (ex_deleted, map UTXO ex_inserted), w')
     \<and> length (Outputs ex_tx) \<le> 2 ^ 32
     \<and> length rows = 3
     \<and> reserved_until (rows ! 2) = None
     \<and> unat (index (rows ! 2)) = 2
     \<and> length (utxos w') = length (filter (\<lambda>r. \<not> (\<exists>i \<in> set (Inputs ex_tx).
                                    txid r = Hash_String ex_env (Hash (Previous i))
                                  \<and> index r = Index (Previous i)))
                         (utxos ex_world @ rows))"
proof -
  have l: "length (Outputs ex_tx) = 3"
    by (simp add: ex_tx_def)
  let ?w' = "snd (ApplyTx ex_env ex_faults InTx 100 ex_tx ex_recs ex_world)"
  from ApplyTx_new_rows [OF ex_run_world, THEN conjunct2, rule_format, OF refl]
  show ?thesis
  proof (elim exE conjE)
    fix rows ins w1
    assume r: "length rows = length (Outputs ex_tx)"
      "utxos ?w' =
         filter (\<lambda>r. \<not> (\<exists>i \<in> set (Inputs ex_tx).
                           txid r = Hash_String ex_env (Hash (Previous i))
                         \<and> index r = Index (Previous i)))
                (utxos ex_world @ rows)"
      "\<forall>i < length (Outputs ex_tx).
           reserved_until (rows ! i) = None
         \<and> index (rows ! i) = of_nat i
         \<and> (length (Outputs ex_tx) \<le> 2 ^ 32 \<longrightarrow> unat (index (rows ! i)) = i)
         \<and> txid (rows ! i) = Hash_String ex_env (Tx_Hash ex_env ex_tx)
         \<and> asset_id (rows ! i) = AssetID_String ex_env (txo_AssetID (Outputs ex_tx ! i))
         \<and> amount (rows ! i) = txo_Value (Outputs ex_tx ! i)
         \<and> account_id (rows ! i) = AccountID (UTXO (ins ! i))
         \<and> manager_node_id (rows ! i) = ManagerNodeID (ins ! i)
         \<and> toKeyIndex [fst (AddrIndex (UTXO (ins ! i))), snd (AddrIndex (UTXO (ins ! i)))]
             = Ok (addr_index (rows ! i))"
    from r(3) [rule_format, of 2] l
    have n: "reserved_until (rows ! 2) = None" "unat (index (rows ! 2)) = 2"
      by simp_all
    show ?thesis
    proof (intro exI conjI)
      show "ApplyTx ex_env ex_faults InTx 100 ex_tx ex_recs ex_world
              = (Ok (ex_deleted, map UTXO ex_inserted), ?w')"
        by (rule ex_run_world)
      show "length (Outputs ex_tx) \<le> 2 ^ 32"
        by (simp add: l)
      show "length rows = 3"
        by (simp add: r(1) l)
      show "reserved_until (rows ! 2) = None"
        by (rule n(1))
      show "unat (index (rows ! 2)) = 2"
        by (rule n(2))
      show "length (utxos ?w') = length (filter (\<lambda>r. \<not> (\<exists>i \<in> set (Inputs ex_tx).
                                    txid r = Hash_String ex_env (Hash (Previous i))
                                  \<and> index r = Index (Previous i)))
                         (utxos ex_world @ rows))"
        by (simp only: r(2))
    qed
  qed
qed

section \<open>The claim about the resolution of the receivers\<close>

text \<open>
  C4 as stated fails on two inputs. The address is derived for every output, before its
  hint is looked at: an output with
  a complete hint whose script has no address fails the whole resolution. And an output
  whose hint has an empty account counts as not yet owned: it is looked up, and the
  address record replaces the hint's manager node, address index and change flag.
\<close>

theorem resolution_tiers_counterexample:
  "insertUTXOs ex_env ex_faults [9] [ex_txo_no_address] [Some ex_hint] ex_world
     = (Err (Wrap (New ''no address'') ''bad pk script''), ex_world)
   \<and> fst (insertUTXOs ex_env ex_faults [9] [ex_txo_registered] [Some ex_hint_no_account]
            ex_world)
     = Ok [\<lparr>UTXO = \<lparr>AccountID = ''acc2'', AssetID = ''a'', Amount = 10,
                     Outpoint = \<lparr>Hash = [9], Index = 0\<rparr>, ResvExpires = 0,
                     AddrIndex = (0, 5)\<rparr>,
             Addr = ''b'', ManagerNodeID = ''mn2'', IsChange = False\<rparr>]
   \<and> ex_hint_no_account
     = \<lparr>rec_ManagerNodeID = ''mn1'', rec_AccountID = [], rec_AddrIndex = [0, 1],
        rec_IsChange = True\<rparr>"
  by code_simp

lemma resolved_output:
  assumes "insertUTXOs env flt hash txouts recs w = (Ok ins, w')"
    and "distinct (map address (addresses w))"
    and "i < length txouts"
  shows "ins ! i =
           (case find (\<lambda>r. address r = Addr (ins ! i)) (addresses w) of
              None \<Rightarrow> apply_rec (recs ! i) (new_appUTXO env hash i (txouts ! i) (Addr (ins ! i)))
            | Some r \<Rightarrow>
                fill_from_row r
                  (apply_rec (recs ! i) (new_appUTXO env hash i (txouts ! i) (Addr (ins ! i)))))"
proof -
  from assms(1) obtain ins0 where
    i0: "initAddrInfoFromRecs_loop env hash recs 0 txouts = Ok ins0" and
    ins: "ins = map (fold fill_from_row
            (filter (\<lambda>r. address r \<in> Addr ` {u \<in> set ins0. AccountID (UTXO u) = []})
               (addresses w))) ins0"
    unfolding initAddrInfoFromRecs_def [symmetric]
    by (rule insertUTXOs_Ok)
  note l = initAddrInfoFromRecs_loop_Ok [OF i0]
  from l assms(3) have m: "ins0 ! i \<in> set ins0" and n: "i < length ins0"
    by simp_all
  from ins n have a: "Addr (ins ! i) = Addr (ins0 ! i)"
    by (simp add: fold_fill_frame)
  from l assms(3)
  have b: "ins0 ! i = apply_rec (recs ! i) (new_appUTXO env hash i (txouts ! i) (Addr (ins0 ! i)))"
    by simp
  from ins n have "ins ! i = fold fill_from_row
            (filter (\<lambda>r. address r \<in> Addr ` {u \<in> set ins0. AccountID (UTXO u) = []})
               (addresses w)) (ins0 ! i)"
    by simp
  also have "\<dots> = (case find (\<lambda>r. address r = Addr (ins0 ! i)) (addresses w) of
              None \<Rightarrow> ins0 ! i
            | Some r \<Rightarrow> fill_from_row r (ins0 ! i))"
    by (rule lookup_one [OF assms(2) m])
  finally have f: "ins ! i = (case find (\<lambda>r. address r = Addr (ins0 ! i)) (addresses w) of
              None \<Rightarrow> ins0 ! i
            | Some r \<Rightarrow> fill_from_row r (ins0 ! i))" .
  have g: "(case find (\<lambda>r. address r = Addr (ins ! i)) (addresses w) of
              None \<Rightarrow> apply_rec (recs ! i) (new_appUTXO env hash i (txouts ! i) (Addr (ins ! i)))
            | Some r \<Rightarrow>
                fill_from_row r
                  (apply_rec (recs ! i) (new_appUTXO env hash i (txouts ! i) (Addr (ins ! i)))))
         = (case find (\<lambda>r. address r = Addr (ins0 ! i)) (addresses w) of
              None \<Rightarrow> ins0 ! i
            | Some r \<Rightarrow> fill_from_row r (ins0 ! i))"
    by (simp only: a b [symmetric])
  show ?thesis
    by (rule trans [OF f g [symmetric]])
qed


lemma find_address:
  assumes "distinct (map address tbl)" and "r \<in> set tbl" and "address r = a"
  shows "find (\<lambda>r. address r = a) tbl = Some r"
proof -
  from assms(2,3) obtain r' where f: "find (\<lambda>r. address r = a) tbl = Some r'"
    by (cases "find (\<lambda>r. address r = a) tbl") (auto simp add: find_None_iff)
  then have "r' \<in> set tbl" "address r' = a"
    by (auto simp add: find_Some_iff)
  moreover from assms(1) have "inj_on address (set tbl)"
    by (simp add: distinct_map)
  ultimately have "r' = r"
    using assms(2,3) by (auto dest: inj_onD)
  with f show ?thesis
    by simp
qed

lemma tier1_fields:
  "AccountID (UTXO (apply_rec rc (new_appUTXO env hash i txo addr)))
     = (case rc of None \<Rightarrow> [] | Some x \<Rightarrow> rec_AccountID x)"
  "ManagerNodeID (apply_rec rc (new_appUTXO env hash i txo addr))
     = (case rc of None \<Rightarrow> [] | Some x \<Rightarrow> rec_ManagerNodeID x)"
  "AddrIndex (UTXO (apply_rec rc (new_appUTXO env hash i txo addr)))
     = (case rc of None \<Rightarrow> (0, 0) | Some x \<Rightarrow> copy_AddrIndex (0, 0) (rec_AddrIndex x))"
  "IsChange (apply_rec rc (new_appUTXO env hash i txo addr))
     = (case rc of None \<Rightarrow> False | Some x \<Rightarrow> rec_IsChange x)"
  "Addr (apply_rec rc (new_appUTXO env hash i txo addr)) = addr"
  by (simp_all add: apply_rec_def new_appUTXO_def zero_UTXO_def split: option.splits)

text \<open>
  C4, as the code has it. When the insertion step succeeds with the primary key of
  \<open>addresses\<close> in force: the address of every output, hinted or not, is derived from
  its script. One query is sent, with the addresses of exactly the outputs whose account
  is empty after the hints (no hint, or a hint with an empty account). An output with a
  hint keeps the hint's account, manager node and change flag and the first two entries
  of its address index, if the hint names an account or the address is not registered.
  An output whose account is empty after the hints and whose address is registered takes
  the account, manager node and change flag of the address record, and the first two
  entries of its key index. An output with no hint and no registered address has empty
  account and manager node, a zero address index and is no change.
\<close>

theorem resolution_tiers:
  assumes "insertUTXOs env flt hash txouts recs w = (Ok ins, w')"
    and "distinct (map address (addresses w))"
  shows "length recs = length txouts \<and> length ins = length txouts
     \<and> (\<exists>addrs outs.
           calls w' = calls w @ [Query_addresses addrs, Exec_insert (Hash_String env hash) outs]
         \<and> set addrs =
             {Addr (ins ! j) | j. j < length txouts
                \<and> (case recs ! j of None \<Rightarrow> True | Some rc \<Rightarrow> rec_AccountID rc = [])})
     \<and> (\<forall>i < length txouts.
           PkScriptAddr env (txo_Script (txouts ! i)) = Inr (Addr (ins ! i))
         \<and> (\<forall>rc. recs ! i = Some rc
                \<and> (rec_AccountID rc \<noteq> []
                    \<or> (\<forall>r \<in> set (addresses w). address r \<noteq> Addr (ins ! i)))
              \<longrightarrow> AccountID (UTXO (ins ! i)) = rec_AccountID rc
                \<and> ManagerNodeID (ins ! i) = rec_ManagerNodeID rc
                \<and> AddrIndex (UTXO (ins ! i)) = copy_AddrIndex (0, 0) (rec_AddrIndex rc)
                \<and> IsChange (ins ! i) = rec_IsChange rc)
         \<and> (\<forall>r \<in> set (addresses w).
               address r = Addr (ins ! i)
             \<and> (case recs ! i of None \<Rightarrow> True | Some rc \<Rightarrow> rec_AccountID rc = [])
              \<longrightarrow> AccountID (UTXO (ins ! i)) = a_account_id r
                \<and> ManagerNodeID (ins ! i) = a_manager_node_id r
                \<and> AddrIndex (UTXO (ins ! i))
                    = copy_AddrIndex
                        (case recs ! i of None \<Rightarrow> (0, 0)
                         | Some rc \<Rightarrow> copy_AddrIndex (0, 0) (rec_AddrIndex rc))
                        (a_key_index r)
                \<and> IsChange (ins ! i) = a_is_change r)
         \<and> (recs ! i = None \<and> (\<forall>r \<in> set (addresses w). address r \<noteq> Addr (ins ! i))
              \<longrightarrow> AccountID (UTXO (ins ! i)) = [] \<and> ManagerNodeID (ins ! i) = []
                \<and> AddrIndex (UTXO (ins ! i)) = (0, 0) \<and> \<not> IsChange (ins ! i)))"
proof (intro conjI)
  from assms(1) show len: "length recs = length txouts"
    by (auto simp add: insertUTXOs_def split: if_splits)
  show li: "length ins = length txouts"
    by (rule insertUTXOs_Ok_outputs(1) [OF assms(1)])
  from assms(1) obtain ins0 outs where
    i0: "initAddrInfoFromRecs_loop env hash recs 0 txouts = Ok ins0" and
    ins: "ins = map (fold fill_from_row
            (filter (\<lambda>r. address r \<in> Addr ` {u \<in> set ins0. AccountID (UTXO u) = []})
               (addresses w))) ins0" and
    u: "utxoSet_loop 0 ins
             \<lparr>us_txid = Hash_String env hash, us_index = [], us_assetID = [], us_amount = [], us_addr = [],
              us_accountID = [], us_managerNodeID = [], us_aIndex = []\<rparr> = Ok outs" and
    e: "exec_err flt InsertUTXOs = None" and
    w': "w' = w\<lparr>calls := calls w @
               [Query_addresses (map Addr (filter (\<lambda>u. AccountID (UTXO u) = []) ins0)),
                Exec_insert (Hash_String env hash) outs],
             utxos := utxos w @ insert_rows (Hash_String env hash) outs\<rparr>"
    unfolding initAddrInfoFromRecs_def [symmetric]
    by (rule insertUTXOs_Ok)
  note l = initAddrInfoFromRecs_loop_Ok [OF i0]
  have t1: "AccountID (UTXO (ins0 ! j))
              = (case recs ! j of None \<Rightarrow> [] | Some x \<Rightarrow> rec_AccountID x)
            \<and> Addr (ins0 ! j) = Addr (ins ! j)" if "j < length txouts" for j
  proof -
    from l that
    have "ins0 ! j = apply_rec (recs ! j) (new_appUTXO env hash j (txouts ! j) (Addr (ins0 ! j)))"
      by simp
    then have "AccountID (UTXO (ins0 ! j))
              = AccountID (UTXO (apply_rec (recs ! j)
                   (new_appUTXO env hash j (txouts ! j) (Addr (ins0 ! j)))))"
      by simp
    moreover from ins l that have "Addr (ins0 ! j) = Addr (ins ! j)"
      by (simp add: fold_fill_frame)
    ultimately show ?thesis
      by (simp add: tier1_fields)
  qed
  have "set (map Addr (filter (\<lambda>u. AccountID (UTXO u) = []) ins0))
          = {Addr (ins ! j) | j. j < length txouts
                \<and> (case recs ! j of None \<Rightarrow> True | Some rc \<Rightarrow> rec_AccountID rc = [])}"
    (is "?A = ?B")
  proof
    show "?A \<subseteq> ?B"
    proof
      fix a assume "a \<in> ?A"
      then obtain u0 where "u0 \<in> set ins0" "AccountID (UTXO u0) = []" "a = Addr u0"
        by auto
      then obtain j where j: "j < length ins0" "u0 = ins0 ! j"
        by (auto simp add: in_set_conv_nth)
      with l have jl: "j < length txouts"
        by simp
      from t1 [OF jl] j \<open>AccountID (UTXO u0) = []\<close> \<open>a = Addr u0\<close>
      have "a = Addr (ins ! j) \<and> j < length txouts
                \<and> (case recs ! j of None \<Rightarrow> True | Some rc \<Rightarrow> rec_AccountID rc = [])"
        using jl by (auto split: option.splits)
      then show "a \<in> ?B"
        by blast
    qed
    show "?B \<subseteq> ?A"
    proof
      fix a assume "a \<in> ?B"
      then obtain j where j: "a = Addr (ins ! j)" "j < length txouts"
        "case recs ! j of None \<Rightarrow> True | Some rc \<Rightarrow> rec_AccountID rc = []"
        by blast
      from t1 [OF j(2)] j(3) have "AccountID (UTXO (ins0 ! j)) = []" "Addr (ins0 ! j) = Addr (ins ! j)"
        by (auto split: option.splits)
      moreover from l j(2) have "ins0 ! j \<in> set ins0"
        by simp
      ultimately have "ins0 ! j \<in> set (filter (\<lambda>u. AccountID (UTXO u) = []) ins0)"
        and "a = Addr (ins0 ! j)"
        using j(1) by simp_all
      then show "a \<in> ?A"
        by (simp only: set_map) (rule imageI)
    qed
  qed
  with w' show "\<exists>addrs outs.
           calls w' = calls w @ [Query_addresses addrs, Exec_insert (Hash_String env hash) outs]
         \<and> set addrs =
             {Addr (ins ! j) | j. j < length txouts
                \<and> (case recs ! j of None \<Rightarrow> True | Some rc \<Rightarrow> rec_AccountID rc = [])}"
    by (intro exI [of _ "map Addr (filter (\<lambda>u. AccountID (UTXO u) = []) ins0)"] exI [of _ outs])
      simp
  show "\<forall>i < length txouts.
           PkScriptAddr env (txo_Script (txouts ! i)) = Inr (Addr (ins ! i))
         \<and> (\<forall>rc. recs ! i = Some rc
                \<and> (rec_AccountID rc \<noteq> []
                    \<or> (\<forall>r \<in> set (addresses w). address r \<noteq> Addr (ins ! i)))
              \<longrightarrow> AccountID (UTXO (ins ! i)) = rec_AccountID rc
                \<and> ManagerNodeID (ins ! i) = rec_ManagerNodeID rc
                \<and> AddrIndex (UTXO (ins ! i)) = copy_AddrIndex (0, 0) (rec_AddrIndex rc)
                \<and> IsChange (ins ! i) = rec_IsChange rc)
         \<and> (\<forall>r \<in> set (addresses w).
               address r = Addr (ins ! i)
             \<and> (case recs ! i of None \<Rightarrow> True | Some rc \<Rightarrow> rec_AccountID rc = [])
              \<longrightarrow> AccountID (UTXO (ins ! i)) = a_account_id r
                \<and> ManagerNodeID (ins ! i) = a_manager_node_id r
                \<and> AddrIndex (UTXO (ins ! i))
                    = copy_AddrIndex
                        (case recs ! i of None \<Rightarrow> (0, 0)
                         | Some rc \<Rightarrow> copy_AddrIndex (0, 0) (rec_AddrIndex rc))
                        (a_key_index r)
                \<and> IsChange (ins ! i) = a_is_change r)
         \<and> (recs ! i = None \<and> (\<forall>r \<in> set (addresses w). address r \<noteq> Addr (ins ! i))
              \<longrightarrow> AccountID (UTXO (ins ! i)) = [] \<and> ManagerNodeID (ins ! i) = []
                \<and> AddrIndex (UTXO (ins ! i)) = (0, 0) \<and> \<not> IsChange (ins ! i))"
  proof (intro allI impI)
    fix i assume i: "i < length txouts"
    let ?u0 = "apply_rec (recs ! i) (new_appUTXO env hash i (txouts ! i) (Addr (ins ! i)))"
    note ro = resolved_output [OF assms i]
    have none: "ins ! i = ?u0" if "\<forall>r \<in> set (addresses w). address r \<noteq> Addr (ins ! i)"
    proof -
      from that have "find (\<lambda>r. address r = Addr (ins ! i)) (addresses w) = None"
        by (simp add: find_None_iff)
      with ro show ?thesis
        by simp
    qed
    have owned: "ins ! i = ?u0" if "recs ! i = Some rc" "rec_AccountID rc \<noteq> []" for rc
    proof -
      from that have "AccountID (UTXO ?u0) \<noteq> []"
        by (simp add: tier1_fields)
      then have "fill_from_row r ?u0 = ?u0" for r
        by (simp add: fill_from_row_def)
      with ro show ?thesis
        by (simp split: option.splits)
    qed
    have some: "ins ! i = fill_from_row r ?u0" if "r \<in> set (addresses w)" "address r = Addr (ins ! i)" for r
    proof -
      from find_address [OF assms(2) that]
      have "find (\<lambda>r. address r = Addr (ins ! i)) (addresses w) = Some r" .
      with ro show ?thesis
        by simp
    qed
    have a: "PkScriptAddr env (txo_Script (txouts ! i)) = Inr (Addr (ins ! i))"
      using insertUTXOs_Ok_outputs(2) [OF assms(1) i] by simp
    have b: "\<forall>rc. recs ! i = Some rc
                \<and> (rec_AccountID rc \<noteq> []
                    \<or> (\<forall>r \<in> set (addresses w). address r \<noteq> Addr (ins ! i)))
              \<longrightarrow> AccountID (UTXO (ins ! i)) = rec_AccountID rc
                \<and> ManagerNodeID (ins ! i) = rec_ManagerNodeID rc
                \<and> AddrIndex (UTXO (ins ! i)) = copy_AddrIndex (0, 0) (rec_AddrIndex rc)
                \<and> IsChange (ins ! i) = rec_IsChange rc"
    proof (intro allI impI)
      fix rc
      assume h: "recs ! i = Some rc
                \<and> (rec_AccountID rc \<noteq> []
                    \<or> (\<forall>r \<in> set (addresses w). address r \<noteq> Addr (ins ! i)))"
      then have "ins ! i = ?u0"
        using none owned by blast
      then have "AccountID (UTXO (ins ! i)) = AccountID (UTXO ?u0)"
        "ManagerNodeID (ins ! i) = ManagerNodeID ?u0"
        "AddrIndex (UTXO (ins ! i)) = AddrIndex (UTXO ?u0)"
        "IsChange (ins ! i) = IsChange ?u0"
        by simp_all
      with h show "AccountID (UTXO (ins ! i)) = rec_AccountID rc
                \<and> ManagerNodeID (ins ! i) = rec_ManagerNodeID rc
                \<and> AddrIndex (UTXO (ins ! i)) = copy_AddrIndex (0, 0) (rec_AddrIndex rc)
                \<and> IsChange (ins ! i) = rec_IsChange rc"
        by (simp add: tier1_fields)
    qed
    have c: "\<forall>r \<in> set (addresses w).
               address r = Addr (ins ! i)
             \<and> (case recs ! i of None \<Rightarrow> True | Some rc \<Rightarrow> rec_AccountID rc = [])
              \<longrightarrow> AccountID (UTXO (ins ! i)) = a_account_id r
                \<and> ManagerNodeID (ins ! i) = a_manager_node_id r
                \<and> AddrIndex (UTXO (ins ! i))
                    = copy_AddrIndex
                        (case recs ! i of None \<Rightarrow> (0, 0)
                         | Some rc \<Rightarrow> copy_AddrIndex (0, 0) (rec_AddrIndex rc))
                        (a_key_index r)
                \<and> IsChange (ins ! i) = a_is_change r"
    proof (intro ballI impI)
      fix r
      assume r: "r \<in> set (addresses w)"
        and h: "address r = Addr (ins ! i)
             \<and> (case recs ! i of None \<Rightarrow> True | Some rc \<Rightarrow> rec_AccountID rc = [])"
      from h have e: "AccountID (UTXO ?u0) = []" "Addr ?u0 = address r"
        by (simp_all add: tier1_fields split: option.splits)
      from some [OF r] h have "ins ! i = fill_from_row r ?u0"
        by simp
      then have "AccountID (UTXO (ins ! i)) = AccountID (UTXO (fill_from_row r ?u0))"
        "ManagerNodeID (ins ! i) = ManagerNodeID (fill_from_row r ?u0)"
        "AddrIndex (UTXO (ins ! i)) = AddrIndex (UTXO (fill_from_row r ?u0))"
        "IsChange (ins ! i) = IsChange (fill_from_row r ?u0)"
        by simp_all
      with e show "AccountID (UTXO (ins ! i)) = a_account_id r
                \<and> ManagerNodeID (ins ! i) = a_manager_node_id r
                \<and> AddrIndex (UTXO (ins ! i))
                    = copy_AddrIndex
                        (case recs ! i of None \<Rightarrow> (0, 0)
                         | Some rc \<Rightarrow> copy_AddrIndex (0, 0) (rec_AddrIndex rc))
                        (a_key_index r)
                \<and> IsChange (ins ! i) = a_is_change r"
        by (simp add: fill_from_row_def tier1_fields)
    qed
    have d: "recs ! i = None \<and> (\<forall>r \<in> set (addresses w). address r \<noteq> Addr (ins ! i))
              \<longrightarrow> AccountID (UTXO (ins ! i)) = [] \<and> ManagerNodeID (ins ! i) = []
                \<and> AddrIndex (UTXO (ins ! i)) = (0, 0) \<and> \<not> IsChange (ins ! i)"
    proof
      assume h: "recs ! i = None \<and> (\<forall>r \<in> set (addresses w). address r \<noteq> Addr (ins ! i))"
      then have "ins ! i = ?u0"
        using none by blast
      then have "AccountID (UTXO (ins ! i)) = AccountID (UTXO ?u0)"
        "ManagerNodeID (ins ! i) = ManagerNodeID ?u0"
        "AddrIndex (UTXO (ins ! i)) = AddrIndex (UTXO ?u0)"
        "IsChange (ins ! i) = IsChange ?u0"
        by simp_all
      with h show "AccountID (UTXO (ins ! i)) = [] \<and> ManagerNodeID (ins ! i) = []
                \<and> AddrIndex (UTXO (ins ! i)) = (0, 0) \<and> \<not> IsChange (ins ! i)"
        by (simp add: tier1_fields)
    qed
    from a b c d show "PkScriptAddr env (txo_Script (txouts ! i)) = Inr (Addr (ins ! i))
         \<and> (\<forall>rc. recs ! i = Some rc
                \<and> (rec_AccountID rc \<noteq> []
                    \<or> (\<forall>r \<in> set (addresses w). address r \<noteq> Addr (ins ! i)))
              \<longrightarrow> AccountID (UTXO (ins ! i)) = rec_AccountID rc
                \<and> ManagerNodeID (ins ! i) = rec_ManagerNodeID rc
                \<and> AddrIndex (UTXO (ins ! i)) = copy_AddrIndex (0, 0) (rec_AddrIndex rc)
                \<and> IsChange (ins ! i) = rec_IsChange rc)
         \<and> (\<forall>r \<in> set (addresses w).
               address r = Addr (ins ! i)
             \<and> (case recs ! i of None \<Rightarrow> True | Some rc \<Rightarrow> rec_AccountID rc = [])
              \<longrightarrow> AccountID (UTXO (ins ! i)) = a_account_id r
                \<and> ManagerNodeID (ins ! i) = a_manager_node_id r
                \<and> AddrIndex (UTXO (ins ! i))
                    = copy_AddrIndex
                        (case recs ! i of None \<Rightarrow> (0, 0)
                         | Some rc \<Rightarrow> copy_AddrIndex (0, 0) (rec_AddrIndex rc))
                        (a_key_index r)
                \<and> IsChange (ins ! i) = a_is_change r)
         \<and> (recs ! i = None \<and> (\<forall>r \<in> set (addresses w). address r \<noteq> Addr (ins ! i))
              \<longrightarrow> AccountID (UTXO (ins ! i)) = [] \<and> ManagerNodeID (ins ! i) = []
                \<and> AddrIndex (UTXO (ins ! i)) = (0, 0) \<and> \<not> IsChange (ins ! i))"
      by (intro conjI)
  qed
qed


theorem resolution_tiers_witness:
  "\<exists>w'. insertUTXOs ex_env ex_faults (Tx_Hash ex_env ex_tx) (Outputs ex_tx) ex_recs ex_world
            = (Ok ex_resolved, w')
     \<and> distinct (map address (addresses ex_world))
     \<and> length ex_resolved = 3
     \<and> PkScriptAddr ex_env (txo_Script (Outputs ex_tx ! 0)) = Inr (Addr (ex_resolved ! 0))
     \<and> ex_recs ! 0 = Some ex_hint
     \<and> rec_AccountID ex_hint \<noteq> []
     \<and> AccountID (UTXO (ex_resolved ! 0)) = rec_AccountID ex_hint
     \<and> ManagerNodeID (ex_resolved ! 0) = rec_ManagerNodeID ex_hint"
proof -
  let ?run = "insertUTXOs ex_env ex_faults (Tx_Hash ex_env ex_tx) (Outputs ex_tx) ex_recs ex_world"
  have run: "?run = (Ok ex_resolved, snd ?run)"
    using ex_insert by (simp add: prod_eq_iff)
  have d: "distinct (map address (addresses ex_world))"
    by (simp add: ex_world_def)
  have l: "length (Outputs ex_tx) = 3"
    by (simp add: ex_tx_def)
  have h: "ex_recs ! 0 = Some ex_hint" "rec_AccountID ex_hint \<noteq> []"
    by (simp_all add: ex_recs_def ex_hint_def)
  note t = resolution_tiers [OF run d]
  from t l have len: "length ex_resolved = 3"
    by simp
  from t [THEN conjunct2, THEN conjunct2, THEN conjunct2, rule_format, of 0] l
  have a: "PkScriptAddr ex_env (txo_Script (Outputs ex_tx ! 0)) = Inr (Addr (ex_resolved ! 0))"
    and b: "\<forall>rc. ex_recs ! 0 = Some rc
                \<and> (rec_AccountID rc \<noteq> []
                    \<or> (\<forall>r \<in> set (addresses ex_world). address r \<noteq> Addr (ex_resolved ! 0)))
              \<longrightarrow> AccountID (UTXO (ex_resolved ! 0)) = rec_AccountID rc
                \<and> ManagerNodeID (ex_resolved ! 0) = rec_ManagerNodeID rc
                \<and> AddrIndex (UTXO (ex_resolved ! 0)) = copy_AddrIndex (0, 0) (rec_AddrIndex rc)
                \<and> IsChange (ex_resolved ! 0) = rec_IsChange rc"
    by simp_all
  from b [rule_format, of ex_hint] h
  have c: "AccountID (UTXO (ex_resolved ! 0)) = rec_AccountID ex_hint"
    "ManagerNodeID (ex_resolved ! 0) = rec_ManagerNodeID ex_hint"
    by simp_all
  show ?thesis
  proof (intro exI conjI)
    show "?run = (Ok ex_resolved, snd ?run)" by (rule run)
  qed (rule d len a h c)+
qed

end
